(* ===== verification/Conduit_Prelude.thy ===== *)
theory Conduit_Prelude
  imports Main
begin

text \<open>
  Shared vocabulary of the development: Go's time and duration types, the result type of
  fallible operations, and the generic facts on lists and folds that several components use.

  A \<open>time.Time\<close> is an \<open>instant\<close>: the nanoseconds since Go's zero time
  (0001-01-01 00:00:00 UTC), so that \<open>t.IsZero()\<close> is \<open>t = 0\<close>,
  \<open>t.Add(d)\<close> is \<open>t + d\<close> and \<open>t.Sub(u)\<close> is \<open>t - u\<close>. A
  \<open>time.Duration\<close> is a number of nanoseconds. A function of the source that returns a
  value and an \<open>error\<close> returns a sum here: \<open>Inl\<close> carries the error.
\<close>

section \<open>Time\<close>

type_synonym instant = int
type_synonym duration = int

definition Millisecond :: duration where
  "Millisecond = 1000000"

definition Second :: duration where
  "Second = 1000000000"

definition Minute :: duration where
  "Minute = 60 * Second"

definition Hour :: duration where
  "Hour = 60 * Minute"

lemmas duration_defs = Millisecond_def Second_def Minute_def Hour_def

lemma duration_pos [simp]:
  "0 < Millisecond" "0 < Second" "0 < Minute" "0 < Hour"
  by (simp_all add: duration_defs)

section \<open>Fallible operations\<close>

type_synonym ('e, 'a) result = "'e + 'a"

named_theorems result_simps \<open>case analysis on the results of fallible operations\<close>

lemma sum_case_eq_Inr [result_simps]:
  "(case r of Inl e \<Rightarrow> Inl (f e) | Inr a \<Rightarrow> g a) = Inr b \<longleftrightarrow> (\<exists>a. r = Inr a \<and> g a = Inr b)"
  by (cases r) auto

section \<open>Runs of a deterministic machine\<close>

text \<open>
  A component whose operations are functions of its state runs over a list of events by
  \<open>fold\<close>. An invariant that one step keeps is kept by the whole run.
\<close>

lemma fold_invariant:
  assumes "\<And>e s. e \<in> set es \<Longrightarrow> I s \<Longrightarrow> I (f e s)" and "I s"
  shows "I (fold f es s)"
  using assms by (induction es arbitrary: s) auto

lemma fold_constant:
  assumes "\<And>e. e \<in> set es \<Longrightarrow> f e s = s"
  shows "fold f es s = s"
  using assms by (induction es) auto

text \<open>A property of every state along a run: it holds after every prefix of the events.\<close>

definition all_prefixes :: "('a list \<Rightarrow> bool) \<Rightarrow> 'a list \<Rightarrow> bool" where
  "all_prefixes P es \<longleftrightarrow> (\<forall>k \<in> {0..length es}. P (take k es))"

lemma all_prefixes_Nil [simp]: "all_prefixes P [] \<longleftrightarrow> P []"
  by (simp add: all_prefixes_def)

lemma all_prefixes_snoc [simp]:
  "all_prefixes P (es @ [e]) \<longleftrightarrow> all_prefixes P es \<and> P (es @ [e])"
proof -
  have "{0..length (es @ [e])} = insert (Suc (length es)) {0..length es}"
    by auto
  then show ?thesis
    by (auto simp: all_prefixes_def)
qed

lemma all_prefixes_last: "all_prefixes P es \<Longrightarrow> P es"
  by (auto simp: all_prefixes_def dest: bspec [where x = "length es"])

section \<open>Lists related element by element\<close>

lemma list_all2_in_right: "list_all2 R xs ys \<Longrightarrow> y \<in> set ys \<Longrightarrow> \<exists>x \<in> set xs. R x y"
  by (induction rule: list_all2_induct) auto

lemma list_all2_in_left: "list_all2 R xs ys \<Longrightarrow> x \<in> set xs \<Longrightarrow> \<exists>y \<in> set ys. R x y"
  by (induction rule: list_all2_induct) auto

lemma distinct_map_eqD: "distinct (map f xs) \<Longrightarrow> x \<in> set xs \<Longrightarrow> y \<in> set xs \<Longrightarrow> f x = f y \<Longrightarrow> x = y"
  by (auto simp: distinct_map dest: inj_onD)

lemma find_SomeD: "find p xs = Some x \<Longrightarrow> x \<in> set xs \<and> p x"
  by (induction xs) (auto split: if_splits)

lemma nth_mark: "j < length r \<Longrightarrow> r[k := True] ! j \<longleftrightarrow> k = j \<or> r ! j"
  by (cases "k = j") simp_all

end
