(* ===== verification/Calendar.thy ===== *)
theory Calendar
  imports Conduit_Prelude
begin

text \<open>
  What the scheduler uses of Go's \<open>time\<close> package, in UTC: the civil date of an instant in the
  proleptic Gregorian calendar, \<open>time.Date\<close> with its normalisation of months and days, clock
  fields, weekday and \<open>Truncate\<close>. An instant counts nanoseconds from the zero time, midnight
  of 1 January of year 1, a Monday.
\<close>

section \<open>Years and months\<close>

definition Day :: duration where "Day = 24 * Hour"

definition leap_year :: "int \<Rightarrow> bool" where
  "leap_year y \<longleftrightarrow> 4 dvd y \<and> (\<not> 100 dvd y \<or> 400 dvd y)"

text \<open>Days from 1 January of year 1 to 1 January of the given year.\<close>

definition days_before_year :: "int \<Rightarrow> int" where
  "days_before_year y = 365 * (y - 1) + (y - 1) div 4 - (y - 1) div 100 + (y - 1) div 400"

definition month_lengths :: "int \<Rightarrow> int list" where
  "month_lengths y = [31, if leap_year y then 29 else 28, 31, 30, 31, 30, 31, 31, 30, 31, 30, 31]"

definition days_in_month :: "int \<Rightarrow> int \<Rightarrow> int" where
  "days_in_month y m = month_lengths y ! nat (m - 1)"

definition days_before_month :: "int \<Rightarrow> int \<Rightarrow> int" where
  "days_before_month y m = sum_list (take (nat (m - 1)) (month_lengths y))"

definition year_of_day :: "int \<Rightarrow> int" where
  "year_of_day n = (let e = 400 * n div 146097 in if n < days_before_year (e + 2) then e + 1 else e + 2)"

fun month_day :: "int list \<Rightarrow> int \<Rightarrow> int \<Rightarrow> int \<times> int" where
  "month_day [] m n = (m, n + 1)"
| "month_day (l # ls) m n = (if n < l then (m, n + 1) else month_day ls (m + 1) (n - l))"

text \<open>Year, month and day of the month of a day number.\<close>

definition civil :: "int \<Rightarrow> int \<times> int \<times> int" where
  "civil n = (let y = year_of_day n in (y, month_day (month_lengths y) 1 (n - days_before_year y)))"

section \<open>Instants\<close>

definition t_Year :: "instant \<Rightarrow> int" where "t_Year t = fst (civil (t div Day))"
definition t_Month :: "instant \<Rightarrow> int" where "t_Month t = fst (snd (civil (t div Day)))"
definition t_Day :: "instant \<Rightarrow> int" where "t_Day t = snd (snd (civil (t div Day)))"
definition t_Weekday :: "instant \<Rightarrow> int" where "t_Weekday t = (t div Day + 1) mod 7"
definition t_Hour :: "instant \<Rightarrow> int" where "t_Hour t = t mod Day div Hour"
definition t_Minute :: "instant \<Rightarrow> int" where "t_Minute t = t mod Hour div Minute"

text \<open>\<open>time.Date(y, mo, d, h, 0, 0, 0, UTC)\<close>: months outside 1 to 12 carry into the year, the rest simply adds up.\<close>

definition time_Date :: "int \<Rightarrow> int \<Rightarrow> int \<Rightarrow> int \<Rightarrow> instant" where
  "time_Date y mo d h = (let y' = y + (mo - 1) div 12; m' = (mo - 1) mod 12 + 1
     in (days_before_year y' + days_before_month y' m' + d - 1) * Day + h * Hour)"

definition Truncate :: "instant \<Rightarrow> duration \<Rightarrow> instant" where
  "Truncate t d = (if d \<le> 0 then t else t - t mod d)"

section \<open>Laws of the calendar\<close>

lemma div_between:
  assumes "0 < (k::int)"
  shows "k * (a div k) \<le> a \<and> a < k * (a div k) + k"
  using assms pos_mod_bound [of k a] pos_mod_sign [of k a] mult_div_mod_eq [of k a] by linarith

lemma days_before_year_Suc: "days_before_year (y + 1) = days_before_year y + (if leap_year y then 366 else 365)"
proof -
  have s: "y div k = (y - 1) div k + (if k dvd y then 1 else 0)" if "k > 0" for k
  proof (cases "y mod k = 0")
    case True
    then have "y - 1 = k * (y div k - 1) + (k - 1)" using div_mult_mod_eq [of y k] by (simp add: algebra_simps)
    then show ?thesis using int_div_pos_eq [of "y - 1" k "y div k - 1" "k - 1"] that True
      by (simp add: dvd_eq_mod_eq_0)
  next
    case False
    then have "0 \<le> y mod k - 1" using that pos_mod_sign [of k y] by linarith
    moreover have "y - 1 = k * (y div k) + (y mod k - 1)" by simp
    moreover have "y mod k - 1 < k" using that pos_mod_bound [of k y] by linarith
    ultimately have "(y - 1) div k = y div k" by (intro int_div_pos_eq)
    then show ?thesis using False by (simp add: dvd_eq_mod_eq_0)
  qed
  have "100 dvd y" if "400 dvd y" using that by (rule dvd_trans [rotated]) simp
  moreover have "4 dvd y" if "100 dvd y" using that by (rule dvd_trans [rotated]) simp
  ultimately have leap: "(if leap_year y then 366 else 365) = (365::int) + (if 4 dvd y then 1 else 0)
      - (if 100 dvd y then 1 else 0) + (if 400 dvd y then 1 else 0)"
    by (cases "400 dvd y"; cases "100 dvd y"; cases "4 dvd y") (simp_all add: leap_year_def)
  have "y div 4 = (y - 1) div 4 + (if 4 dvd y then 1 else 0)"
    "y div 100 = (y - 1) div 100 + (if 100 dvd y then 1 else 0)"
    "y div 400 = (y - 1) div 400 + (if 400 dvd y then 1 else 0)" by (rule s, simp)+
  then have "days_before_year (y + 1) = 365 * y + ((y - 1) div 4 + (if 4 dvd y then 1 else 0))
      - ((y - 1) div 100 + (if 100 dvd y then 1 else 0)) + ((y - 1) div 400 + (if 400 dvd y then 1 else 0))"
    unfolding days_before_year_def by (simp only: add_diff_cancel_right')
  then show ?thesis unfolding leap days_before_year_def [of y] by (simp only: algebra_simps)
qed

text \<open>A year starts within two days of its mean position in the cycle of 400 years.\<close>

lemma days_before_year_mean:
  "400 * days_before_year (a + 1) \<le> 146097 * a + 396" "146097 * a \<le> 400 * days_before_year (a + 1) + 699"
proof -
  obtain p q r where "p = a div 4" "q = a div 100" "r = a div 400" by blast
  then have "days_before_year (a + 1) = 365 * a + p - q + r"
    "4 * p \<le> a \<and> a < 4 * p + 4" "100 * q \<le> a \<and> a < 100 * q + 100" "400 * r \<le> a \<and> a < 400 * r + 400"
    by (simp add: days_before_year_def, simp_all only: div_between zero_less_numeral)
  then show "400 * days_before_year (a + 1) \<le> 146097 * a + 396" "146097 * a \<le> 400 * days_before_year (a + 1) + 699"
    by simp_all
qed

lemma year_of_day_bounds:
  "days_before_year (year_of_day n) \<le> n" "n < days_before_year (year_of_day n + 1)"
proof -
  obtain e where e_def: "e = 400 * n div 146097" by blast
  then have e: "146097 * e \<le> 400 * n" "400 * n < 146097 * e + 146097"
    using div_between [of 146097 "400 * n"] by simp_all
  have "days_before_year (e + 1) \<le> n" using days_before_year_mean(1) [of e] e by simp
  moreover have "n < days_before_year (e + 3)"
    using days_before_year_mean(2) [of "e + 2"] e by (simp add: add.commute)
  ultimately show "days_before_year (year_of_day n) \<le> n" "n < days_before_year (year_of_day n + 1)"
    by (simp_all add: year_of_day_def Let_def add.commute [of _ e] flip: e_def)
qed

lemma days_before_year_mono: "a \<le> b \<Longrightarrow> days_before_year a \<le> days_before_year b"
  by (induction b rule: int_ge_induct) (simp_all add: days_before_year_Suc)

lemma year_of_day_eq:
  assumes "days_before_year y \<le> n" and "n < days_before_year (y + 1)"
  shows "year_of_day n = y"
  using assms year_of_day_bounds [of n] days_before_year_mono [of "y + 1" "year_of_day n"]
    days_before_year_mono [of "year_of_day n + 1" y] by linarith

lemma month_day_eq:
  assumes "k < length ls" and "0 \<le> i" and "i < ls ! k" and "\<forall>l \<in> set ls. 0 < l"
  shows "month_day ls m (sum_list (take k ls) + i) = (m + int k, i + 1)"
  using assms
proof (induction ls arbitrary: k m)
  case (Cons l ls)
  show ?case
  proof (cases k)
    case (Suc j)
    have "0 \<le> sum_list (take j ls)"
      using Cons.prems(4) by (intro sum_list_nonneg) (meson in_set_takeD less_imp_le list.set_intros(2))
    moreover have "month_day ls (m + 1) (sum_list (take j ls) + i) = (m + 1 + int j, i + 1)"
      using Cons.prems Suc by (intro Cons.IH) simp_all
    ultimately show ?thesis using Suc Cons.prems(2) by simp
  qed (use Cons.prems in simp)
qed simp

lemma prefix_sum_bounds:
  assumes "k < length ls" and "i < ls ! k" and "\<forall>l \<in> set ls. 0 < (l::int)"
  shows "0 \<le> sum_list (take k ls)" and "sum_list (take k ls) + i < sum_list ls"
proof -
  have pos: "0 \<le> sum_list xs" if "set xs \<subseteq> set ls" for xs
    using that assms(3) by (intro sum_list_nonneg) (meson less_imp_le subsetD)
  show "0 \<le> sum_list (take k ls)" by (intro pos set_take_subset)
  have "sum_list ls = sum_list (take k ls) + ls ! k + sum_list (drop (Suc k) ls)"
    using assms(1) by (metis Cons_nth_drop_Suc add.assoc append_take_drop_id sum_list.Cons sum_list_append)
  moreover have "0 \<le> sum_list (drop (Suc k) ls)" by (intro pos set_drop_subset)
  ultimately show "sum_list (take k ls) + i < sum_list ls" using assms(2) by linarith
qed

lemma month_day_exists:
  assumes "0 \<le> (n::int)" and "n < sum_list ls"
  shows "\<exists>k i. k < length ls \<and> 0 \<le> i \<and> i < ls ! k \<and> n = sum_list (take k ls) + i"
  using assms
proof (induction ls arbitrary: n)
  case (Cons l ls)
  show ?case
  proof (cases "n < l")
    case True
    then show ?thesis using Cons.prems by (intro exI [of _ 0] exI [of _ n]) simp
  next
    case False
    then obtain k i where "k < length ls" "0 \<le> i" "i < ls ! k" "n - l = sum_list (take k ls) + i"
      using Cons.IH [of "n - l"] Cons.prems by auto
    then show ?thesis by (intro exI [of _ "Suc k"] exI [of _ i]) simp
  qed
qed simp

lemma month_lengths_facts:
  "length (month_lengths y) = 12" "\<forall>l \<in> set (month_lengths y). 0 < l"
  "days_before_year (y + 1) = days_before_year y + sum_list (month_lengths y)"
  by (simp_all add: month_lengths_def days_before_year_Suc)

lemma days_before_month_Suc:
  assumes "1 \<le> m" and "m \<le> 12"
  shows "days_before_month y (m + 1) = days_before_month y m + days_in_month y m"
proof -
  have "nat (m + 1 - 1) = Suc (nat (m - 1))" "nat (m - 1) < length (month_lengths y)"
    using assms by (simp_all add: month_lengths_facts)
  then show ?thesis by (simp add: days_before_month_def days_in_month_def take_Suc_conv_app_nth)
qed

definition valid_date :: "int \<Rightarrow> int \<Rightarrow> int \<Rightarrow> bool" where
  "valid_date y m d \<longleftrightarrow> 1 \<le> m \<and> m \<le> 12 \<and> 1 \<le> d \<and> d \<le> days_in_month y m"

definition day_number :: "int \<Rightarrow> int \<Rightarrow> int \<Rightarrow> int" where
  "day_number y m d = days_before_year y + days_before_month y m + d - 1"

text \<open>Dates and day numbers correspond one to one.\<close>

lemma civil_day_number:
  assumes "valid_date y m d"
  shows "civil (day_number y m d) = (y, m, d)"
proof -
  let ?k = "nat (m - 1)"
  let ?n = "sum_list (take ?k (month_lengths y)) + (d - 1)"
  have k: "?k < length (month_lengths y)" using assms by (auto simp: valid_date_def month_lengths_facts)
  have md: "month_day (month_lengths y) 1 ?n = (1 + int ?k, d - 1 + 1)"
    using assms k by (intro month_day_eq) (simp_all add: month_lengths_facts valid_date_def days_in_month_def)
  have n: "day_number y m d = days_before_year y + ?n" by (simp add: day_number_def days_before_month_def)
  have "0 \<le> sum_list (take ?k (month_lengths y))" "?n < sum_list (month_lengths y)"
    using prefix_sum_bounds [OF k _ month_lengths_facts(2), of "d - 1"] assms
    by (simp_all add: valid_date_def days_in_month_def)
  then have "year_of_day (day_number y m d) = y"
    using assms by (intro year_of_day_eq) (simp_all add: n month_lengths_facts valid_date_def)
  then show ?thesis using md assms by (simp add: civil_def n valid_date_def)
qed

lemma civil_cases:
  obtains y m d where "civil n = (y, m, d)" "valid_date y m d" "n = day_number y m d"
proof -
  define y where "y = year_of_day n"
  have "0 \<le> n - days_before_year y" "n - days_before_year y < sum_list (month_lengths y)"
    using year_of_day_bounds [of n] month_lengths_facts(3) [of y] by (simp_all flip: y_def)
  then obtain k i where k: "k < 12" "0 \<le> i" "i < month_lengths y ! k"
      "n - days_before_year y = sum_list (take k (month_lengths y)) + i"
    using month_day_exists [of "n - days_before_year y" "month_lengths y"] by (auto simp: month_lengths_facts)
  have "valid_date y (1 + int k) (i + 1)" using k by (simp add: valid_date_def days_in_month_def)
  moreover have "n = day_number y (1 + int k) (i + 1)" using k by (simp add: day_number_def days_before_month_def)
  ultimately show ?thesis using civil_day_number that by blast
qed

section \<open>Carrying over\<close>

lemma Day_pos [simp]: "0 < Day" and Hour_pos: "0 < Hour" and Minute_pos: "0 < Minute"
  by (simp_all add: Day_def duration_defs)

lemma Day_hours: "Day = Hour * 24" and Hour_minutes: "Hour = Minute * 60"
  by (simp_all add: Day_def duration_defs)

lemma time_Date_eq:
  assumes "1 \<le> m" and "m \<le> 12"
  shows "time_Date y m d h = day_number y m d * Day + h * Hour"
proof -
  have "(m - 1) div 12 = 0" "(m - 1) mod 12 = m - 1" using assms by simp_all
  then show ?thesis by (simp add: time_Date_def day_number_def Let_def)
qed

lemma time_Date_next_month:
  assumes "1 \<le> m" and "m \<le> 12"
  shows "time_Date y (m + 1) 1 0 = (day_number y m 1 + days_in_month y m) * Day"
proof (cases "m = 12")
  case True
  then show ?thesis
    using month_lengths_facts(3) [of y] days_before_month_Suc [of 12 y]
    by (simp add: time_Date_def Let_def day_number_def days_before_month_def month_lengths_facts)
next
  case False
  then show ?thesis
    using assms days_before_month_Suc [OF assms, of y] time_Date_eq [of "m + 1" y 1 0]
    by (simp add: day_number_def)
qed

text \<open>The three ways the scheduler skips ahead, and what they leave unchanged on the way.\<close>

definition next_month :: "instant \<Rightarrow> instant" where
  "next_month t = time_Date (t_Year t) (t_Month t + 1) 1 0"

definition next_day :: "instant \<Rightarrow> instant" where
  "next_day t = time_Date (t_Year t) (t_Month t) (t_Day t + 1) 0"

definition next_hour :: "instant \<Rightarrow> instant" where
  "next_hour t = time_Date (t_Year t) (t_Month t) (t_Day t) (t_Hour t + 1)"

lemma date_of_instant:
  "valid_date (t_Year t) (t_Month t) (t_Day t)" "t div Day = day_number (t_Year t) (t_Month t) (t_Day t)"
  by (cases rule: civil_cases [of "t div Day"]; simp add: t_Year_def t_Month_def t_Day_def)+

lemma next_day_eq: "next_day t = (t div Day + 1) * Day"
  using date_of_instant [of t] by (simp add: next_day_def valid_date_def time_Date_eq day_number_def)

lemma mod_mult_div:
  assumes "0 < (k::int)" and "0 \<le> c"
  shows "a mod (k * c) div k = a div k mod c"
proof (rule int_div_pos_eq)
  show "a mod (k * c) = k * (a div k mod c) + a mod k" by (rule zmod_zmult2_eq [OF assms(2)])
qed (use assms(1) in simp_all)

lemma clock_fields: "t mod Day div Hour = t div Hour mod 24" "t mod Hour div Minute = t div Minute mod 60"
  unfolding Day_hours using mod_mult_div [OF Hour_pos, of 24 t] mod_mult_div [OF Minute_pos, of 60 t]
  by (simp_all only: Hour_minutes)

lemma next_hour_eq: "next_hour t = (t div Hour + 1) * Hour"
proof -
  have "next_hour t = t div Day * Day + (t mod Day div Hour + 1) * Hour"
    using date_of_instant [of t] by (simp add: next_hour_def valid_date_def time_Date_eq t_Hour_def)
  also have "t mod Day div Hour = t div Hour mod 24" by (rule clock_fields)
  also have "t div Day = t div Hour div 24" by (simp add: Day_hours zdiv_zmult2_eq)
  finally have "next_hour t = (24 * (t div Hour div 24) + t div Hour mod 24 + 1) * Hour"
    unfolding Day_hours by (simp only: algebra_simps)
  then show ?thesis unfolding mult_div_mod_eq .
qed

lemma next_month_eq:
  "next_month t = (t div Day - t_Day t + 1 + days_in_month (t_Year t) (t_Month t)) * Day"
  using date_of_instant [of t] by (simp add: next_month_def valid_date_def time_Date_next_month day_number_def)

lemma div_less_mult:
  assumes "0 < (k::int)"
  shows "a div k < b \<longleftrightarrow> a < b * k"
proof
  assume "a div k < b"
  then have "k * (a div k + 1) \<le> k * b" using assms by simp
  then show "a < b * k" using div_between [OF assms, of a] by (simp add: algebra_simps)
next
  assume "a < b * k"
  then have "k * (a div k) < b * k" using div_between [OF assms, of a] by linarith
  then show "a div k < b" using assms by (simp add: mult.commute [of b])
qed

lemma same_month:
  assumes "t \<le> t'" and "t' < next_month t"
  shows "t_Month t' = t_Month t"
proof -
  let ?d = "t_Day t + (t' div Day - t div Day)"
  have "t div Day \<le> t' div Day" using assms(1) by (simp add: zdiv_mono1)
  moreover have "t' div Day < t div Day - t_Day t + 1 + days_in_month (t_Year t) (t_Month t)"
    using assms(2) by (simp add: next_month_eq div_less_mult)
  ultimately have "valid_date (t_Year t) (t_Month t) ?d"
    using date_of_instant(1) [of t] by (simp add: valid_date_def)
  then have "civil (day_number (t_Year t) (t_Month t) ?d) = (t_Year t, t_Month t, ?d)" by (rule civil_day_number)
  moreover have "day_number (t_Year t) (t_Month t) ?d = t' div Day"
    using date_of_instant(2) [of t] by (simp add: day_number_def)
  ultimately show ?thesis by (simp add: t_Month_def [of t'])
qed

lemma same_unit:
  assumes "0 < (k::int)" and "t \<le> t'" and "t' < (t div k + 1) * k"
  shows "t' div k = t div k"
  using assms div_less_mult [OF assms(1), of t' "t div k + 1"] zdiv_mono1 [OF assms(2,1)] by simp

lemma same_day: "t \<le> t' \<Longrightarrow> t' < next_day t \<Longrightarrow> t_Day t' = t_Day t \<and> t_Weekday t' = t_Weekday t"
  using same_unit [OF Day_pos, of t t'] by (simp add: next_day_eq t_Day_def t_Weekday_def)

lemma same_hour: "t \<le> t' \<Longrightarrow> t' < next_hour t \<Longrightarrow> t_Hour t' = t_Hour t"
  using same_unit [OF Hour_pos, of t t'] by (simp add: next_hour_eq t_Hour_def clock_fields)

lemma same_minute: "t \<le> t' \<Longrightarrow> t' < t + Minute \<Longrightarrow> Minute dvd t \<Longrightarrow> t_Minute t' = t_Minute t"
  using same_unit [OF Minute_pos, of t t']
  by (simp add: t_Minute_def clock_fields distrib_right)

lemma next_later: "t < next_month t" "t < next_day t" "t < next_hour t"
proof -
  have "t div Day < t div Day - t_Day t + 1 + days_in_month (t_Year t) (t_Month t)"
    using date_of_instant(1) [of t] by (simp add: valid_date_def)
  then show "t < next_month t" by (simp add: next_month_eq div_less_mult)
  show "t < next_day t" "t < next_hour t"
    using div_less_mult [OF Day_pos, of t "t div Day + 1"] div_less_mult [OF Hour_pos, of t "t div Hour + 1"]
    by (simp_all add: next_day_eq next_hour_eq)
qed

lemma next_aligned: "Minute dvd next_month t" "Minute dvd next_day t" "Minute dvd next_hour t"
  unfolding next_month_eq next_day_eq next_hour_eq by (simp_all add: Day_hours Hour_minutes)

lemmas time_defs = t_Year_def t_Month_def t_Day_def t_Weekday_def t_Hour_def t_Minute_def

end
