(* ===== verification/Cron.thy ===== *)
theory Cron
  imports Calendar Go_Strings
begin

text \<open>
  Cron expressions of \<open>internal/scheduler/scheduler.go\<close>: the parser of a field and of the
  five-field expression, and \<open>Next\<close>, the search for the next firing time, in UTC. The lemmas
  say which values a parsed field holds, that \<open>Next\<close> terminates and returns the least matching
  minute before its limit, and that the limit of \<open>4 * 365\<close> days loses the 29th of February.
\<close>

section \<open>Parsing\<close>

datatype field_error =
    InvalidStep string
  | InvalidRange string
  | InvalidValue string int int

text \<open>The loop \<open>for i := 0; i <= max-min; i += n\<close>; the caller has checked that the step is positive.\<close>

function mark_steps :: "int \<Rightarrow> int \<Rightarrow> int \<Rightarrow> bool list \<Rightarrow> bool list" where
  "mark_steps n i last_i result =
     (if 0 < n \<and> i \<le> last_i then mark_steps n (i + n) last_i (result[nat i := True]) else result)"
  by auto
termination by (relation "measure (\<lambda>(n, i, last_i, result). nat (last_i + 1 - i))") auto

declare mark_steps.simps [simp del]

definition parse_part :: "int \<Rightarrow> int \<Rightarrow> string \<Rightarrow> bool list \<Rightarrow> field_error + bool list" where
  "parse_part mn mx part result =
    (if part = ''*'' then Inr (map (\<lambda>_. True) result)
     else if HasPrefix part ''*/'' then
       (case Atoi (drop 2 part) of
          None \<Rightarrow> Inl (InvalidStep part)
        | Some n \<Rightarrow> if n \<le> 0 then Inl (InvalidStep part) else Inr (mark_steps n 0 (mx - mn) result))
     else if CHR ''-'' \<in> set part then
       (let (b0, b1) = SplitN2 part (CHR ''-'') in
        case (Atoi b0, Atoi b1) of
          (Some lo, Some hi) \<Rightarrow>
            if lo < mn \<or> hi > mx \<or> lo > hi then Inl (InvalidRange part)
            else Inr (fold (\<lambda>i r. r[nat (i - mn) := True]) [lo..hi] result)
        | _ \<Rightarrow> Inl (InvalidRange part))
     else (case Atoi part of
          None \<Rightarrow> Inl (InvalidValue part mn mx)
        | Some n \<Rightarrow> if n < mn \<or> n > mx then Inl (InvalidValue part mn mx)
            else Inr (result[nat (n - mn) := True])))"

fun parse_parts :: "int \<Rightarrow> int \<Rightarrow> string list \<Rightarrow> bool list \<Rightarrow> field_error + bool list" where
  "parse_parts mn mx [] result = Inr result"
| "parse_parts mn mx (part # parts) result =
     (case parse_part mn mx (TrimSpace part) result of
        Inl e \<Rightarrow> Inl e
      | Inr result' \<Rightarrow> parse_parts mn mx parts result')"

definition parseField :: "string \<Rightarrow> int \<Rightarrow> int \<Rightarrow> field_error + bool list" where
  "parseField expr mn mx = parse_parts mn mx (Split expr (CHR '','')) (replicate (nat (mx - mn + 1)) False)"

record cronSchedule =
  minutes :: "bool list"
  hours :: "bool list"
  doms :: "bool list"
  months :: "bool list"
  dows :: "bool list"

datatype cron_error = FieldCount nat | FieldError string field_error

definition parseCron :: "string \<Rightarrow> cron_error + cronSchedule" where
  "parseCron expr = (let fields = Fields expr in
    if length fields \<noteq> 5 then Inl (FieldCount (length fields))
    else case parseField (fields ! 0) 0 59 of Inl e \<Rightarrow> Inl (FieldError ''minute'' e) | Inr mi \<Rightarrow>
      (case parseField (fields ! 1) 0 23 of Inl e \<Rightarrow> Inl (FieldError ''hour'' e) | Inr h \<Rightarrow>
      (case parseField (fields ! 2) 1 31 of Inl e \<Rightarrow> Inl (FieldError ''day-of-month'' e) | Inr dm \<Rightarrow>
      (case parseField (fields ! 3) 1 12 of Inl e \<Rightarrow> Inl (FieldError ''month'' e) | Inr mo \<Rightarrow>
      (case parseField (fields ! 4) 0 6 of Inl e \<Rightarrow> Inl (FieldError ''day-of-week'' e) | Inr dw \<Rightarrow>
        Inr \<lparr>minutes = mi, hours = h, doms = dm, months = mo, dows = dw\<rparr>)))))"

section \<open>The next firing time\<close>

function next_loop :: "cronSchedule \<Rightarrow> instant \<Rightarrow> instant \<Rightarrow> instant" where
  "next_loop c limit t =
    (if t < limit then
       if \<not> months c ! nat (t_Month t - 1) then next_loop c limit (next_month t)
       else if t_Day t > 31 \<or> \<not> doms c ! nat (t_Day t - 1) \<or> \<not> dows c ! nat (t_Weekday t)
         then next_loop c limit (next_day t)
       else if \<not> hours c ! nat (t_Hour t) then next_loop c limit (next_hour t)
       else if \<not> minutes c ! nat (t_Minute t) then next_loop c limit (t + Minute)
       else t
     else 0)"
  by auto
termination
  using next_later Minute_pos by (relation "measure (\<lambda>(c, limit, t). nat (limit - t))") auto

declare next_loop.simps [simp del]

definition Next :: "cronSchedule \<Rightarrow> instant \<Rightarrow> instant" where
  "Next c from = next_loop c (from + 4 * 365 * 24 * Hour) (Truncate (from + Minute) Minute)"

section \<open>The search\<close>

definition cron_matches :: "cronSchedule \<Rightarrow> instant \<Rightarrow> bool" where
  "cron_matches c t \<longleftrightarrow> months c ! nat (t_Month t - 1) \<and> doms c ! nat (t_Day t - 1) \<and>
     dows c ! nat (t_Weekday t) \<and> hours c ! nat (t_Hour t) \<and> minutes c ! nat (t_Minute t)"

text \<open>What a search from \<open>t\<close> up to \<open>limit\<close> may answer.\<close>

definition search_result :: "cronSchedule \<Rightarrow> instant \<Rightarrow> instant \<Rightarrow> instant \<Rightarrow> bool" where
  "search_result c limit t r \<longleftrightarrow>
     (\<forall>s. t \<le> s \<and> s < (if r = 0 then limit else r) \<and> Minute dvd s \<longrightarrow> \<not> cron_matches c s) \<and>
     (r \<noteq> 0 \<longrightarrow> t \<le> r \<and> r < limit \<and> Minute dvd r \<and> cron_matches c r)"

lemma search_result_skip:
  assumes "search_result c limit t' r" and "t < t'"
    and "\<And>s. t \<le> s \<Longrightarrow> s < t' \<Longrightarrow> Minute dvd s \<Longrightarrow> \<not> cron_matches c s"
  shows "search_result c limit t r"
  using assms unfolding search_result_def by (meson leD leI le_less_trans less_imp_le)

lemma t_Day_le: "\<not> t_Day t > 31"
proof -
  have "days_in_month y m \<le> 31" if "1 \<le> m" "m \<le> 12" for y m
  proof -
    have "month_lengths y ! nat (m - 1) \<in> set (month_lengths y)"
      using that by (intro nth_mem) (simp add: month_lengths_facts)
    then show ?thesis by (auto simp: days_in_month_def month_lengths_def split: if_splits)
  qed
  from this [of "t_Month t" "t_Year t"] show ?thesis
    using date_of_instant(1) [of t] by (simp add: valid_date_def)
qed

lemma skip_month:
  assumes "search_result c limit (next_month t) r" and "\<not> months c ! nat (t_Month t - 1)"
  shows "search_result c limit t r"
  using assms same_month next_later(1) [of t]
  by (elim search_result_skip) (auto simp: cron_matches_def)

lemma skip_day:
  assumes "search_result c limit (next_day t) r" and "\<not> doms c ! nat (t_Day t - 1) \<or> \<not> dows c ! nat (t_Weekday t)"
  shows "search_result c limit t r"
  using assms same_day next_later(2) [of t]
  by (elim search_result_skip) (auto simp: cron_matches_def)

lemma skip_hour:
  assumes "search_result c limit (next_hour t) r" and "\<not> hours c ! nat (t_Hour t)"
  shows "search_result c limit t r"
  using assms same_hour next_later(3) [of t]
  by (elim search_result_skip) (auto simp: cron_matches_def)

lemma skip_minute:
  assumes "search_result c limit (t + Minute) r" and "\<not> minutes c ! nat (t_Minute t)" and "Minute dvd t"
  shows "search_result c limit t r"
  using assms(1)
proof (rule search_result_skip)
  show "t < t + Minute" using Minute_pos by simp
  show "\<not> cron_matches c s" if "t \<le> s" "s < t + Minute" for s
    using same_minute [OF that assms(3)] assms(2) by (simp add: cron_matches_def)
qed

lemma next_loop_correct: "Minute dvd t \<Longrightarrow> 0 < t \<Longrightarrow> search_result c limit t (next_loop c limit t)"
proof (induction c limit t rule: next_loop.induct)
  case (1 c limit t)
  note step = next_loop.simps [of c limit t]
  have pos: "0 < t'" if "t < t'" for t' using that 1(6) by simp
  have "0 < t + Minute" "Minute dvd t + Minute" using 1(5,6) by (simp_all add: add_pos_pos Minute_pos)
  consider (over) "\<not> t < limit" | (month) "t < limit" "\<not> months c ! nat (t_Month t - 1)"
    | (day) "t < limit" "months c ! nat (t_Month t - 1)" "\<not> doms c ! nat (t_Day t - 1) \<or> \<not> dows c ! nat (t_Weekday t)"
    | (hour) "t < limit" "months c ! nat (t_Month t - 1)" "doms c ! nat (t_Day t - 1)" "dows c ! nat (t_Weekday t)"
        "\<not> hours c ! nat (t_Hour t)"
    | (minute) "t < limit" "months c ! nat (t_Month t - 1)" "doms c ! nat (t_Day t - 1)" "dows c ! nat (t_Weekday t)"
        "hours c ! nat (t_Hour t)" "\<not> minutes c ! nat (t_Minute t)"
    | (found) "t < limit" "cron_matches c t"
    unfolding cron_matches_def by blast
  then show ?case
  proof cases
    case over
    then show ?thesis by (auto simp: step search_result_def)
  next
    case month
    then show ?thesis using 1(1) [OF month next_aligned(1) pos [OF next_later(1)]] by (simp add: step skip_month)
  next
    case day
    then show ?thesis using 1(2) [OF day(1) _ _ next_aligned(2) pos [OF next_later(2)]] by (simp add: step skip_day)
  next
    case hour
    then show ?thesis
      using 1(3) [OF hour(1) _ _ _ next_aligned(3) pos [OF next_later(3)]] t_Day_le by (simp add: step skip_hour)
  next
    case minute
    then show ?thesis
      using 1(4) [OF minute(1)] 1(5) \<open>0 < t + Minute\<close> \<open>Minute dvd t + Minute\<close> t_Day_le by (simp add: step skip_minute)
  next
    case found
    moreover from this have "next_loop c limit t = t" using t_Day_le by (simp add: step cron_matches_def)
    ultimately show ?thesis using 1(5,6) by (auto simp: search_result_def)
  qed
qed

lemma first_minute:
  assumes "0 \<le> (from::int)"
  defines "t \<equiv> Truncate (from + Minute) Minute"
  shows "Minute dvd t" and "0 < t" and "from < t" and "Minute dvd s \<Longrightarrow> from < s \<Longrightarrow> t \<le> s"
proof -
  have "\<not> Minute \<le> 0" using Minute_pos by linarith
  then have t: "t = (from div Minute + 1) * Minute"
    by (simp add: t_def Truncate_def minus_mod_eq_div_mult algebra_simps)
  show "Minute dvd t" by (simp add: t)
  show "from < t" using div_less_mult [OF Minute_pos, of "from" "from div Minute + 1"] by (simp add: t)
  then show "0 < t" using assms(1) by simp
  assume s: "Minute dvd s" "from < s"
  then obtain k where k: "s = k * Minute" by (metis dvdE mult.commute)
  then have "from div Minute < k" using s(2) div_less_mult [OF Minute_pos] by simp
  then show "t \<le> s" unfolding t k using Minute_pos by (intro mult_right_mono) (simp_all add: less_imp_le)
qed

lemma Next_search:
  assumes "0 \<le> from"
  shows "search_result c (from + 1460 * Day) (Truncate (from + Minute) Minute) (Next c from)"
proof -
  have lim: "from + 4 * 365 * 24 * Hour = from + 1460 * Day" by (simp add: Day_def)
  show ?thesis unfolding Next_def lim using first_minute(1,2) [OF assms] by (rule next_loop_correct)
qed

lemma Next_facts:
  assumes "0 \<le> from"
  shows "Next c from \<noteq> 0 \<Longrightarrow>
      from < Next c from \<and> Next c from < from + 1460 * Day \<and> Minute dvd Next c from \<and> cron_matches c (Next c from)"
    and "Minute dvd s \<Longrightarrow> from < s \<Longrightarrow> s < (if Next c from = 0 then from + 1460 * Day else Next c from) \<Longrightarrow>
      \<not> cron_matches c s"
  using Next_search [OF assms, of c] first_minute(3,4) [OF assms]
  unfolding search_result_def by (meson le_less_trans less_le_trans)+


definition every_minute :: cronSchedule where
  "every_minute = \<lparr>minutes = replicate 60 True, hours = replicate 24 True, doms = replicate 31 True,
     months = replicate 12 True, dows = replicate 7 True\<rparr>"

lemma clock_ranges:
  "1 \<le> t_Month t" "t_Month t \<le> 12" "1 \<le> t_Day t" "t_Day t \<le> 31" "0 \<le> t_Weekday t" "t_Weekday t < 7"
  "0 \<le> t_Hour t" "t_Hour t < 24" "0 \<le> t_Minute t" "t_Minute t < 60"
  using date_of_instant(1) [of t] t_Day_le [of t]
  by (simp_all add: valid_date_def t_Weekday_def t_Hour_def t_Minute_def clock_fields)

lemma every_minute_matches: "cron_matches every_minute t"
  using clock_ranges [of t] by (simp add: cron_matches_def every_minute_def nat_less_iff)


section \<open>What a parsed expression means\<close>

text \<open>The values a part of a field stands for.\<close>

definition part_covers :: "int \<Rightarrow> string \<Rightarrow> int \<Rightarrow> bool" where
  "part_covers mn part v \<longleftrightarrow>
    (if part = ''*'' then True
     else if HasPrefix part ''*/'' then (\<exists>n. Atoi (drop 2 part) = Some n \<and> n dvd v - mn)
     else if CHR ''-'' \<in> set part then
       (\<exists>lo hi. Atoi (fst (SplitN2 part CHR ''-'')) = Some lo \<and> Atoi (snd (SplitN2 part CHR ''-'')) = Some hi \<and> lo \<le> v \<and> v \<le> hi)
     else Atoi part = Some v)"

definition field_covers :: "int \<Rightarrow> string \<Rightarrow> int \<Rightarrow> bool" where
  "field_covers mn expr v \<longleftrightarrow> (\<exists>part \<in> set (Split expr CHR '',''). part_covers mn (TrimSpace part) v)"

lemma mark_steps_length [simp]: "length (mark_steps n i l r) = length r"
  by (induction n i l r rule: mark_steps.induct) (subst mark_steps.simps, simp)

lemma mark_steps_nth:
  "0 < n \<Longrightarrow> 0 \<le> i \<Longrightarrow> j < length r \<Longrightarrow>
    mark_steps n i l r ! j \<longleftrightarrow> r ! j \<or> (i \<le> int j \<and> int j \<le> l \<and> n dvd int j - i)"
proof (induction n i l r rule: mark_steps.induct)
  case (1 n i l r)
  show ?case
  proof (cases "i \<le> l")
    case True
    have "n dvd int j - (i + n) \<longleftrightarrow> n dvd int j - i" by (simp add: diff_diff_eq [symmetric] dvd_diff_left_iff)
    moreover have "i < int j \<Longrightarrow> n dvd int j - i \<Longrightarrow> i + n \<le> int j" using zdvd_imp_le [of n "int j - i"] by simp
    moreover have "mark_steps n (i + n) l (r[nat i := True]) ! j \<longleftrightarrow>
        (nat i = j \<or> r ! j) \<or> (i + n \<le> int j \<and> int j \<le> l \<and> n dvd int j - (i + n))"
      using 1 True by (simp add: nth_mark)
    moreover have "mark_steps n i l r = mark_steps n (i + n) l (r[nat i := True])"
      using 1(2) True by (simp add: mark_steps.simps [of n i l r])
    moreover have "nat i = j \<longleftrightarrow> i = int j" using 1(3) by auto
    ultimately show ?thesis using True 1(2) by (cases "i = int j") auto
  next
    case False
    then show ?thesis by (auto simp: mark_steps.simps [of n i l r])
  qed
qed

lemma fold_mark_nth:
  "length (fold (\<lambda>i r. r[f i := True]) is r) = length r"
  "j < length r \<Longrightarrow> fold (\<lambda>i r. r[f i := True]) is r ! j \<longleftrightarrow> r ! j \<or> j \<in> f ` set is"
  by (induction "is" arbitrary: r) (auto simp: nth_mark)

lemma parse_part_sound:
  assumes "parse_part mn mx part r = Inr r'" and "length r = nat (mx - mn + 1)" and "mn \<le> v" and "v \<le> mx"
  shows "length r' = length r" and "r' ! nat (v - mn) \<longleftrightarrow> r ! nat (v - mn) \<or> part_covers mn part v"
proof -
  have j: "nat (v - mn) < length r" using assms by simp
  consider (all) "part = ''*''" "r' = map (\<lambda>_. True) r"
    | (step) n where "part \<noteq> ''*''" "HasPrefix part ''*/''" "Atoi (drop 2 part) = Some n" "0 < n"
        "r' = mark_steps n 0 (mx - mn) r"
    | (range) lo hi where "part \<noteq> ''*''" "\<not> HasPrefix part ''*/''" "CHR ''-'' \<in> set part"
        "Atoi (fst (SplitN2 part CHR ''-'')) = Some lo" "Atoi (snd (SplitN2 part CHR ''-'')) = Some hi" "mn \<le> lo"
        "r' = fold (\<lambda>i r. r[nat (i - mn) := True]) [lo..hi] r"
    | (single) n where "part \<noteq> ''*''" "\<not> HasPrefix part ''*/''" "CHR ''-'' \<notin> set part"
        "Atoi part = Some n" "mn \<le> n" "r' = r[nat (n - mn) := True]"
    using assms(1) by (auto simp: parse_part_def not_le not_less split: if_splits option.splits prod.splits)
  then have "length r' = length r \<and> (r' ! nat (v - mn) \<longleftrightarrow> r ! nat (v - mn) \<or> part_covers mn part v)"
  proof cases
    case all
    then show ?thesis using j by (simp add: part_covers_def)
  next
    case step
    then show ?thesis using j assms(3,4) by (simp add: part_covers_def mark_steps_nth)
  next
    case range
    have "nat (v - mn) \<in> (\<lambda>i. nat (i - mn)) ` set [lo..hi] \<longleftrightarrow> lo \<le> v \<and> v \<le> hi"
      using range(6) assms(3) by (auto simp: image_iff nat_eq_iff)
    then show ?thesis using range j by (simp add: part_covers_def fold_mark_nth)
  next
    case single
    then show ?thesis using j assms(3) by (auto simp: part_covers_def nth_mark)
  qed
  then show "length r' = length r" "r' ! nat (v - mn) \<longleftrightarrow> r ! nat (v - mn) \<or> part_covers mn part v" by simp_all
qed

lemma parse_parts_sound:
  assumes "parse_parts mn mx parts r = Inr r'" and "length r = nat (mx - mn + 1)" and "mn \<le> v" and "v \<le> mx"
  shows "length r' = length r \<and>
    (r' ! nat (v - mn) \<longleftrightarrow> r ! nat (v - mn) \<or> (\<exists>part \<in> set parts. part_covers mn (TrimSpace part) v))"
  using assms(1,2)
proof (induction parts arbitrary: r)
  case (Cons part parts)
  then obtain r1 where r1: "parse_part mn mx (TrimSpace part) r = Inr r1" "parse_parts mn mx parts r1 = Inr r'"
    by (auto split: sum.splits)
  from parse_part_sound [OF r1(1) Cons.prems(2) assms(3,4)] Cons.IH [OF r1(2)] Cons.prems(2)
  show ?case by auto
qed simp

lemma parseField_sound:
  assumes "parseField expr mn mx = Inr bits" and "mn \<le> v" and "v \<le> mx"
  shows "bits ! nat (v - mn) \<longleftrightarrow> field_covers mn expr v"
  using parse_parts_sound [OF assms(1) [unfolded parseField_def] _ assms(2,3)] assms(2,3)
  by (simp add: field_covers_def)

text \<open>
  C21: An accepted expression has exactly five fields, and its schedule matches an instant just
  when every field covers the corresponding part of the date and time: a part \<open>*\<close> covers all
  values, \<open>*/n\<close> every n-th from the least, \<open>a-b\<close> a range, a number itself; a field covers what
  one of its comma-separated parts covers. Day of month and day of week must both match.
\<close>

theorem cron_expression_meaning:
  assumes "parseCron expr = Inr c"
  shows "\<exists>mi h dm mo dw. Fields expr = [mi, h, dm, mo, dw] \<and>
    (\<forall>t. cron_matches c t \<longleftrightarrow> field_covers 0 mi (t_Minute t) \<and> field_covers 0 h (t_Hour t) \<and>
      field_covers 1 dm (t_Day t) \<and> field_covers 1 mo (t_Month t) \<and> field_covers 0 dw (t_Weekday t))"
proof -
  obtain mi h dm mo dw where f: "Fields expr = [mi, h, dm, mo, dw]"
    and p: "parseField mi 0 59 = Inr (minutes c)" "parseField h 0 23 = Inr (hours c)"
      "parseField dm 1 31 = Inr (doms c)" "parseField mo 1 12 = Inr (months c)" "parseField dw 0 6 = Inr (dows c)"
    using assms by (auto simp: parseCron_def Let_def numeral_eq_Suc length_Suc_conv split: if_splits sum.splits)
  have "cron_matches c t \<longleftrightarrow> field_covers 0 mi (t_Minute t) \<and> field_covers 0 h (t_Hour t) \<and>
      field_covers 1 dm (t_Day t) \<and> field_covers 1 mo (t_Month t) \<and> field_covers 0 dw (t_Weekday t)" for t
    using clock_ranges [of t] parseField_sound [OF p(1), of "t_Minute t"] parseField_sound [OF p(2), of "t_Hour t"]
      parseField_sound [OF p(3), of "t_Day t"] parseField_sound [OF p(4), of "t_Month t"]
      parseField_sound [OF p(5), of "t_Weekday t"]
    by (auto simp: cron_matches_def)
  with f show ?thesis by blast
qed

definition leap_day_schedule :: cronSchedule where
  "leap_day_schedule = \<lparr>minutes = (replicate 60 False)[0 := True], hours = (replicate 24 False)[0 := True],
     doms = (replicate 31 False)[28 := True], months = (replicate 12 False)[1 := True], dows = replicate 7 True\<rparr>"

lemmas parse_eval = parseCron_def parseField_def parse_part_def Fields_def Split_def TrimSpace_def is_space_def
  Atoi_def is_digit_def digits_val_def digit_val_def int64_range_def

lemma leap_day_parsed: "parseCron ''0 0 29 2 *'' = Inr leap_day_schedule"
  by (simp add: parse_eval leap_day_schedule_def)

theorem cron_expression_meaning_witness:
  "\<forall>t. cron_matches leap_day_schedule t \<longleftrightarrow> field_covers 0 ''0'' (t_Minute t) \<and> field_covers 0 ''0'' (t_Hour t) \<and>
    field_covers 1 ''29'' (t_Day t) \<and> field_covers 1 ''2'' (t_Month t) \<and> field_covers 0 ''*'' (t_Weekday t)"
proof -
  have "Fields ''0 0 29 2 *'' = [''0'', ''0'', ''29'', ''2'', ''*'']" by (simp add: parse_eval)
  then show ?thesis using cron_expression_meaning [OF leap_day_parsed] by auto
qed

section \<open>The lost leap day\<close>

lemma leap_day_matches:
  "cron_matches leap_day_schedule t \<longleftrightarrow> t_Month t = 2 \<and> t_Day t = 29 \<and> t_Hour t = 0 \<and> t_Minute t = 0"
  using clock_ranges [of t]
  by (auto simp: cron_matches_def leap_day_schedule_def nth_mark nat_less_iff nat_eq_iff)

lemma leap_days_apart:
  assumes "valid_date y 2 29" and "day_number 2024 2 29 < day_number y 2 29"
  shows "day_number 2024 2 29 + 1460 < day_number y 2 29"
proof -
  have "leap_year y" using assms(1) by (simp add: valid_date_def days_in_month_def month_lengths_def split: if_splits)
  then have y4: "4 dvd y" by (simp add: leap_year_def)
  have n: "day_number z 2 29 = days_before_year z + 59" for z
    by (simp add: day_number_def days_before_month_def month_lengths_def)
  have b: "days_before_year 2024 = 738885" "days_before_year 2028 = 740346" by (simp_all add: days_before_year_def)
  have "2024 < y" using assms(2) days_before_year_mono [of y 2024] unfolding n by linarith
  then have "2028 \<le> y" using y4 by presburger
  from days_before_year_mono [OF this] show ?thesis by (simp add: n b)
qed

lemma midnight:
  assumes "Minute dvd t" and "t_Hour t = 0" and "t_Minute t = 0"
  shows "t = t div Day * Day"
proof -
  have "Minute dvd t mod Hour" using assms(1) by (simp add: Hour_minutes dvd_mod)
  moreover have "t mod Hour < Minute"
    using assms(3) div_less_mult [OF Minute_pos, of "t mod Hour" 1] by (simp add: t_Minute_def)
  ultimately have "t mod Hour = 0" using Hour_pos zdvd_not_zless [of "t mod Hour" Minute] pos_mod_sign [of Hour t] by fastforce
  then have "Hour dvd t" by (simp add: dvd_eq_mod_eq_0)
  then have "Hour dvd t mod Day" by (simp add: Day_hours dvd_mod)
  moreover have "t mod Day < Hour"
    using assms(2) div_less_mult [OF Hour_pos, of "t mod Day" 1] by (simp add: t_Hour_def)
  ultimately have "t mod Day = 0" using zdvd_not_zless [of "t mod Day" Hour] pos_mod_sign [of Day t] by fastforce
  then show ?thesis using div_mult_mod_eq [of t Day] by simp
qed

text \<open>
  A schedule for every 29th of February that fired in 2024 is never fired again: the search
  limit of \<open>4 * 365\<close> days ends one day before the next leap day, which does match, and \<open>Next\<close>
  returns the zero time, on which the dispatcher skips the entry.
\<close>

theorem cron_leap_day_lost:
  "parseCron ''0 0 29 2 *'' = Inr leap_day_schedule \<and>
   cron_matches leap_day_schedule (time_Date 2028 2 29 0) \<and>
   Next leap_day_schedule (time_Date 2024 2 29 0) = 0"
proof (intro conjI leap_day_parsed)
  let ?n = "day_number 2024 2 29"
  have t0: "time_Date 2024 2 29 0 = ?n * Day" by (simp add: time_Date_eq)
  have v: "valid_date y 2 29" if "leap_year y" for y
    using that by (simp add: valid_date_def days_in_month_def month_lengths_def)
  have "Hour dvd x * Day" for x by (simp add: Day_hours)
  moreover have "Day \<noteq> 0" by (simp add: Day_def duration_defs)
  ultimately show "cron_matches leap_day_schedule (time_Date 2028 2 29 0)"
    using civil_day_number [OF v, of 2028]
    by (simp add: leap_day_matches time_Date_eq time_defs leap_year_def)
  have "0 \<le> ?n * Day" using Day_pos by (simp add: less_imp_le day_number_def days_before_year_def days_before_month_def month_lengths_def)
  note sr = Next_search [OF this, of leap_day_schedule, unfolded search_result_def] and fm = first_minute(3) [OF this]
  define r where "r = Next leap_day_schedule (?n * Day)"
  have "False" if "r \<noteq> 0"
  proof -
    have r: "?n * Day < r" "r < (?n + 1460) * Day" "Minute dvd r" "cron_matches leap_day_schedule r"
      using sr fm that unfolding r_def [symmetric] by (auto simp: distrib_right)
    then have d: "r div Day = day_number (t_Year r) 2 29" "valid_date (t_Year r) 2 29" "r = r div Day * Day"
      using date_of_instant [of r] midnight [of r] by (simp_all add: leap_day_matches)
    have "?n < r div Day" using r(1) d(3) by (metis Day_pos mult_less_cancel_right_pos)
    with leap_days_apart d have "?n + 1460 < r div Day" by simp
    with r(2) show False using div_less_mult [OF Day_pos, of r "?n + 1460"] by simp
  qed
  then show "Next leap_day_schedule (time_Date 2024 2 29 0) = 0" by (auto simp: t0 r_def)
qed

end
