(* ===== verification/Models.thy ===== *)
theory Models
  imports Conduit_Prelude
begin

text \<open>
  The data that crosses package boundaries, \<open>src/pkg/models/models.go\<close>: the task, the job
  and the job's state. Go's \<open>JobState\<close> is a string type with five constants; other values
  reach the code from JSON and from query parameters, so it stays a string here. A nil
  \<open>map[string]string\<close> reads as the empty map. Counters (\<open>Attempt\<close>,
  \<open>MaxRetries\<close>) are integers: they grow by one per execution and never near \<open>2^63\<close>.
\<close>

type_synonym JobState = string

definition JobStatePending :: JobState where "JobStatePending = ''PENDING''"
definition JobStateRunning :: JobState where "JobStateRunning = ''RUNNING''"
definition JobStateCompleted :: JobState where "JobStateCompleted = ''COMPLETED''"
definition JobStateFailed :: JobState where "JobStateFailed = ''FAILED''"
definition JobStateDead :: JobState where "JobStateDead = ''DEAD''"

lemmas job_state_defs =
  JobStatePending_def JobStateRunning_def JobStateCompleted_def JobStateFailed_def JobStateDead_def

lemma job_states_distinct [simp]:
  "distinct ['''', JobStatePending, JobStateRunning, JobStateCompleted, JobStateFailed, JobStateDead]"
  by (simp add: job_state_defs)

lemma job_state_neqs [simp]:
  "JobStatePending \<noteq> JobStateRunning" "JobStateRunning \<noteq> JobStatePending"
  "JobStatePending \<noteq> JobStateCompleted" "JobStateCompleted \<noteq> JobStatePending"
  "JobStatePending \<noteq> JobStateFailed" "JobStateFailed \<noteq> JobStatePending"
  "JobStatePending \<noteq> JobStateDead" "JobStateDead \<noteq> JobStatePending"
  "JobStateRunning \<noteq> JobStateCompleted" "JobStateCompleted \<noteq> JobStateRunning"
  "JobStateRunning \<noteq> JobStateFailed" "JobStateFailed \<noteq> JobStateRunning"
  "JobStateRunning \<noteq> JobStateDead" "JobStateDead \<noteq> JobStateRunning"
  "JobStateCompleted \<noteq> JobStateFailed" "JobStateFailed \<noteq> JobStateCompleted"
  "JobStateCompleted \<noteq> JobStateDead" "JobStateDead \<noteq> JobStateCompleted"
  "JobStateFailed \<noteq> JobStateDead" "JobStateDead \<noteq> JobStateFailed"
  "JobStatePending \<noteq> ''''" "'''' \<noteq> JobStatePending" "JobStateRunning \<noteq> ''''" "'''' \<noteq> JobStateRunning"
  by (simp_all add: job_state_defs)

type_synonym metadata = "string \<rightharpoonup> string"

record Task =
  task_ID :: string
  task_Name :: string
  task_Payload :: string
  task_RetryCount :: int
  task_MaxRetries :: int
  task_Timeout :: duration
  task_CronExpression :: string
  task_Queue :: string
  task_Metadata :: metadata

record Job =
  job_ID :: string
  job_IdempotencyKey :: string
  job_Task :: Task
  job_State :: JobState
  job_Attempt :: int
  job_ScheduledAt :: "instant option"
  job_StartedAt :: "instant option"
  job_LeaseExpiresAt :: "instant option"
  job_LeaseToken :: string
  job_CompletedAt :: "instant option"
  job_LastError :: string
  job_Metadata :: metadata
  job_CreatedAt :: instant
  job_UpdatedAt :: instant

text \<open>Go's zero values \<open>models.Task{}\<close> and \<open>models.Job{}\<close>.\<close>

definition zero_Task :: Task where
  "zero_Task =
     \<lparr>task_ID = '''', task_Name = '''', task_Payload = '''', task_RetryCount = 0,
      task_MaxRetries = 0, task_Timeout = 0, task_CronExpression = '''', task_Queue = '''',
      task_Metadata = Map.empty\<rparr>"

definition zero_Job :: Job where
  "zero_Job =
     \<lparr>job_ID = '''', job_IdempotencyKey = '''', job_Task = zero_Task, job_State = '''',
      job_Attempt = 0, job_ScheduledAt = None, job_StartedAt = None, job_LeaseExpiresAt = None,
      job_LeaseToken = '''', job_CompletedAt = None, job_LastError = '''',
      job_Metadata = Map.empty, job_CreatedAt = 0, job_UpdatedAt = 0\<rparr>"

end
