(* ===== verification/Go_Errors.thy ===== *)
theory Go_Errors
  imports Conduit_Prelude
begin

text \<open>
  Go error values: a message and the errors it wraps (several, since \<open>fmt.Errorf\<close> takes more
  than one \<open>%w\<close>), and \<open>errors.Is\<close>, which looks for a sentinel in that tree. The sentinels
  of the program carry pairwise different messages, so equality of values stands for the
  identity that \<open>errors.Is\<close> compares.
\<close>

datatype go_error = GoError (Error: string) (Unwrap: "go_error list")

definition errors_New :: "string \<Rightarrow> go_error" where
  "errors_New msg = GoError msg []"

fun errors_Is :: "go_error \<Rightarrow> go_error \<Rightarrow> bool" where
  "errors_Is (GoError msg es) target \<longleftrightarrow>
     GoError msg es = target \<or> list_ex (\<lambda>e. errors_Is e target) es"

text \<open>\<open>fmt.Errorf("...: %w", err)\<close>: the text of the wrapped error ends the message.\<close>

definition wrapf :: "string \<Rightarrow> go_error \<Rightarrow> go_error" where
  "wrapf prefix err = GoError (prefix @ Error err) [err]"

lemma errors_Is_refl [simp]: "errors_Is e e"
  by (cases e) simp

lemma errors_Is_wrapped:
  assumes "w \<in> set (Unwrap e)" and "errors_Is w t"
  shows "errors_Is e t"
  using assms by (cases e) (auto simp: list_ex_iff)

lemma errors_Is_New: "errors_Is (errors_New m) t \<longleftrightarrow> t = errors_New m"
  by (auto simp: errors_New_def)

lemma errors_Is_wrapf: "errors_Is (wrapf p e) t \<longleftrightarrow> wrapf p e = t \<or> errors_Is e t"
  by (simp add: wrapf_def)

end
