(* ===== verification/Scheduler.thy ===== *)
theory Scheduler
  imports Cron Models Go_Errors
begin

text \<open>
  The cron scheduler of \<open>internal/scheduler/scheduler.go\<close>: registration, start and stop, and
  \<open>dispatch\<close>, the body of a tick. The maps of the Go struct are maps here; the order in which
  \<open>dispatch\<close> ranges over the entries is an argument, since Go leaves it open. The goroutines a
  tick starts are the list of entries it returns. Lemmas: every registered entry keeps a
  schedule parsed from its own expression, a tick fires exactly the entries with a matching
  minute since their last run, whatever the order, and a fresh entry fires at the first tick.
\<close>

section \<open>Model\<close>

record Entry =
  e_Name :: string
  e_Cron :: string
  e_Job :: Job
  e_Handler :: "(Job \<Rightarrow> go_error option) option"
  e_Enabled :: bool

record Scheduler =
  s_entries :: "string \<rightharpoonup> Entry"
  s_schedules :: "string \<rightharpoonup> cronSchedule"
  s_lastRun :: "string \<rightharpoonup> instant"
  s_tickInterval :: duration
  s_running :: bool
  s_cancel :: bool
  s_loops :: nat

datatype scheduler_error = NameRequired | InvalidCron string cron_error

definition New_scheduler :: "duration \<Rightarrow> Scheduler" where
  "New_scheduler tickInterval = \<lparr>s_entries = Map.empty, s_schedules = Map.empty, s_lastRun = Map.empty,
     s_tickInterval = (if tickInterval \<le> 0 then Minute else tickInterval),
     s_running = False, s_cancel = False, s_loops = 0\<rparr>"

definition Register :: "Entry \<Rightarrow> Scheduler \<Rightarrow> (scheduler_error + unit) \<times> Scheduler" where
  "Register entry s =
    (if e_Name entry = '''' then (Inl NameRequired, s)
     else case parseCron (e_Cron entry) of
       Inl e \<Rightarrow> (Inl (InvalidCron (e_Cron entry) e), s)
     | Inr sched \<Rightarrow> (Inr (), s\<lparr>s_entries := (s_entries s)(e_Name entry \<mapsto> entry),
         s_schedules := (s_schedules s)(e_Name entry \<mapsto> sched)\<rparr>))"

text \<open>\<open>s_cancel\<close> says whether the cancel function is set, \<open>s_loops\<close> counts the tick goroutines alive.\<close>

definition Start_scheduler :: "Scheduler \<Rightarrow> Scheduler" where
  "Start_scheduler s = (if s_running s then s
     else s\<lparr>s_cancel := True, s_running := True, s_loops := s_loops s + 1\<rparr>)"

text \<open>\<open>Stop\<close> cancels the context of the running loop and waits until every goroutine has returned.\<close>

definition Stop_scheduler :: "Scheduler \<Rightarrow> Scheduler" where
  "Stop_scheduler s = s\<lparr>s_cancel := False, s_running := False, s_loops := 0\<rparr>"

record candidate =
  c_entry :: Entry
  c_sched :: "cronSchedule option"
  c_lastRun :: instant

definition candidate_of :: "Scheduler \<Rightarrow> string \<Rightarrow> candidate" where
  "candidate_of s name = \<lparr>c_entry = the (s_entries s name), c_sched = s_schedules s name,
     c_lastRun = (case s_lastRun s name of None \<Rightarrow> 0 | Some t \<Rightarrow> t)\<rparr>"

fun dispatch_loop :: "instant \<Rightarrow> candidate list \<Rightarrow> Scheduler \<Rightarrow> Entry list \<times> Scheduler" where
  "dispatch_loop now [] s = ([], s)"
| "dispatch_loop now (c # cs) s =
    (case c_sched c of
       None \<Rightarrow> dispatch_loop now cs s
     | Some sched \<Rightarrow>
         if \<not> e_Enabled (c_entry c) then dispatch_loop now cs s
         else let next = Next sched (c_lastRun c) in
           if next = 0 \<or> now < next then dispatch_loop now cs s
           else let (fired, s') = dispatch_loop now cs (s\<lparr>s_lastRun := (s_lastRun s)(e_Name (c_entry c) \<mapsto> now)\<rparr>)
             in (c_entry c # fired, s'))"

text \<open>One tick at time \<open>now\<close>; \<open>order\<close> lists the keys of the entry map in the order of the range loop.\<close>

definition dispatch :: "instant \<Rightarrow> string list \<Rightarrow> Scheduler \<Rightarrow> Entry list \<times> Scheduler" where
  "dispatch now order s = dispatch_loop now (map (candidate_of s) order) s"

text \<open>The goroutine of a fired entry; the result is the error it logs.\<close>

definition run_entry :: "Entry \<Rightarrow> go_error option" where
  "run_entry e = (case e_Handler e of None \<Rightarrow> None | Some h \<Rightarrow> h (e_Job e))"

section \<open>Registered entries\<close>

lemma New_scheduler_simps [simp]:
  "s_entries (New_scheduler k) = Map.empty" "s_schedules (New_scheduler k) = Map.empty"
  "s_lastRun (New_scheduler k) = Map.empty" "\<not> s_running (New_scheduler k)" "\<not> s_cancel (New_scheduler k)"
  "s_loops (New_scheduler k) = 0" "0 < s_tickInterval (New_scheduler k)"
  using Minute_pos by (simp_all add: New_scheduler_def)

definition registered_ok :: "Scheduler \<Rightarrow> bool" where
  "registered_ok s \<longleftrightarrow> dom (s_schedules s) = dom (s_entries s) \<and>
     (\<forall>name e. s_entries s name = Some e \<longrightarrow> name = e_Name e \<and> name \<noteq> '''' \<and>
        (\<exists>c. s_schedules s name = Some c \<and> parseCron (e_Cron e) = Inr c)) \<and>
     s_loops s \<le> 1 \<and> (s_running s \<longleftrightarrow> s_cancel s) \<and> (s_loops s = 1 \<longrightarrow> s_running s) \<and> 0 < s_tickInterval s \<and>
     (\<forall>name t. s_lastRun s name = Some t \<longrightarrow> 0 \<le> t)"

definition last_run :: "Scheduler \<Rightarrow> string \<Rightarrow> instant" where
  "last_run s name = (case s_lastRun s name of None \<Rightarrow> 0 | Some t \<Rightarrow> t)"

text \<open>The contract of a tick: an enabled entry is due when a minute of its schedule lies between its last run and now.\<close>

definition due :: "instant \<Rightarrow> Scheduler \<Rightarrow> string \<Rightarrow> bool" where
  "due now s name \<longleftrightarrow> (\<exists>e c m. s_entries s name = Some e \<and> parseCron (e_Cron e) = Inr c \<and> e_Enabled e \<and>
     Minute dvd m \<and> last_run s name < m \<and> m \<le> now \<and> m < last_run s name + 1460 * Day \<and> cron_matches c m)"

datatype scheduler_op = OpRegister Entry | OpStart | OpStop | OpTick instant "string list"

fun valid_op :: "scheduler_op \<Rightarrow> Scheduler \<Rightarrow> bool" where
  "valid_op (OpTick now order) s \<longleftrightarrow> 0 \<le> now \<and> distinct order \<and> set order = dom (s_entries s)"
| "valid_op _ s \<longleftrightarrow> True"

fun scheduler_step :: "scheduler_op \<Rightarrow> Scheduler \<Rightarrow> Scheduler" where
  "scheduler_step (OpRegister e) s = snd (Register e s)"
| "scheduler_step OpStart s = Start_scheduler s"
| "scheduler_step OpStop s = Stop_scheduler s"
| "scheduler_step (OpTick now order) s = snd (dispatch now order s)"

section \<open>A tick\<close>

lemma Next_due:
  assumes "0 \<le> l"
  shows "Next c l \<noteq> 0 \<and> Next c l \<le> now \<longleftrightarrow>
    (\<exists>m. Minute dvd m \<and> l < m \<and> m \<le> now \<and> m < l + 1460 * Day \<and> cron_matches c m)"
proof
  assume "Next c l \<noteq> 0 \<and> Next c l \<le> now"
  then show "\<exists>m. Minute dvd m \<and> l < m \<and> m \<le> now \<and> m < l + 1460 * Day \<and> cron_matches c m"
    using Next_facts(1) [OF assms] by blast
next
  assume "\<exists>m. Minute dvd m \<and> l < m \<and> m \<le> now \<and> m < l + 1460 * Day \<and> cron_matches c m"
  then obtain m where m: "Minute dvd m" "l < m" "m \<le> now" "m < l + 1460 * Day" "cron_matches c m" by blast
  then have "\<not> m < (if Next c l = 0 then l + 1460 * Day else Next c l)" using Next_facts(2) [OF assms] by blast
  then show "Next c l \<noteq> 0 \<and> Next c l \<le> now" using m(3,4) by (auto split: if_splits)
qed

definition candidate_due :: "instant \<Rightarrow> candidate \<Rightarrow> bool" where
  "candidate_due now c \<longleftrightarrow> e_Enabled (c_entry c) \<and>
     (\<exists>sched. c_sched c = Some sched \<and> Next sched (c_lastRun c) \<noteq> 0 \<and> Next sched (c_lastRun c) \<le> now)"

lemma dispatch_loop_eq:
  "dispatch_loop now cs s = (map c_entry (filter (candidate_due now) cs),
     s\<lparr>s_lastRun := \<lambda>name. if name \<in> (e_Name \<circ> c_entry) ` set (filter (candidate_due now) cs) then Some now else s_lastRun s name\<rparr>)"
proof (induction cs arbitrary: s)
  case (Cons c cs)
  show ?case
  proof (cases "candidate_due now c")
    case True
    then obtain sched where "c_sched c = Some sched" "e_Enabled (c_entry c)" "Next sched (c_lastRun c) \<noteq> 0"
        "Next sched (c_lastRun c) \<le> now" by (auto simp: candidate_due_def)
    with True show ?thesis by (simp add: Cons.IH Let_def fun_eq_iff)
  next
    case False
    with Cons.IH show ?thesis by (auto simp: candidate_due_def Let_def not_le split: option.split)
  qed
qed simp

lemma candidate_due_iff:
  assumes "registered_ok s" and "s_entries s name = Some e"
  shows "candidate_due now (candidate_of s name) \<longleftrightarrow> due now s name" and "e_Name (c_entry (candidate_of s name)) = name"
proof -
  obtain c where c: "s_schedules s name = Some c" "parseCron (e_Cron e) = Inr c" "name = e_Name e"
    using assms unfolding registered_ok_def by blast
  have l: "c_lastRun (candidate_of s name) = last_run s name" by (simp add: candidate_of_def last_run_def)
  have "0 \<le> last_run s name" using assms(1) by (auto simp: registered_ok_def last_run_def split: option.split)
  from Next_due [OF this, of c now] show "candidate_due now (candidate_of s name) \<longleftrightarrow> due now s name"
    unfolding candidate_due_def due_def l using assms(2) c by (simp add: candidate_of_def)
  show "e_Name (c_entry (candidate_of s name)) = name" using assms(2) c(3) by (simp add: candidate_of_def)
qed

lemma dispatch_due:
  assumes "registered_ok s" and "distinct order" and "set order = dom (s_entries s)"
  shows "\<exists>fired. dispatch now order s =
      (fired, s\<lparr>s_lastRun := \<lambda>name. if due now s name then Some now else s_lastRun s name\<rparr>) \<and>
    distinct (map e_Name fired) \<and>
    (\<forall>e. e \<in> set fired \<longleftrightarrow> s_entries s (e_Name e) = Some e \<and> due now s (e_Name e))"
proof -
  define names where "names = filter (due now s) order"
  have name: "candidate_due now (candidate_of s n) \<longleftrightarrow> due now s n" "e_Name (c_entry (candidate_of s n)) = n"
    if "n \<in> set order" for n
    using candidate_due_iff [OF assms(1)] that assms(3) by blast+
  have f: "filter (candidate_due now) (map (candidate_of s) order) = map (candidate_of s) names"
    using name(1) by (simp add: names_def filter_map cong: filter_cong)
  have "(e_Name \<circ> c_entry) ` set (map (candidate_of s) names) = set names"
    using name(2) by (force simp: names_def)
  also have "set names = {n. due now s n}" using assms(3) by (auto simp: names_def due_def)
  finally have n: "(e_Name \<circ> c_entry) ` set (map (candidate_of s) names) = {n. due now s n}" .
  let ?fired = "map (\<lambda>n. c_entry (candidate_of s n)) names"
  have "map e_Name ?fired = names" unfolding map_map by (intro map_idI) (simp add: names_def name(2))
  then have "distinct (map e_Name ?fired)" using assms(2) by (simp add: names_def)
  moreover have "e \<in> set ?fired \<longleftrightarrow> s_entries s (e_Name e) = Some e \<and> due now s (e_Name e)" for e
  proof -
    have c: "c_entry (candidate_of s n) = the (s_entries s n)" for n by (simp add: candidate_of_def)
    have "n \<in> set names \<and> e = the (s_entries s n) \<longleftrightarrow> n = e_Name e \<and> s_entries s n = Some e \<and> due now s n" for n
    proof (cases "due now s n")
      case True
      then obtain e' where e': "s_entries s n = Some e'" "n \<in> set names"
        using \<open>set names = {n. due now s n}\<close> by (auto simp: due_def)
      then have "e_Name e' = n" using name(2) [of n, unfolded c] by (simp add: names_def)
      then show ?thesis using True e' by auto
    qed (simp add: names_def)
    note key = this
    have "e \<in> set ?fired \<longleftrightarrow> (\<exists>n. n \<in> set names \<and> e = the (s_entries s n))" unfolding c by auto
    then show ?thesis unfolding key by simp
  qed
  moreover have "dispatch now order s =
      (?fired, s\<lparr>s_lastRun := \<lambda>name. if due now s name then Some now else s_lastRun s name\<rparr>)"
    unfolding dispatch_def dispatch_loop_eq f n by simp
  ultimately show ?thesis by (intro exI [of _ ?fired] conjI allI)
qed

text \<open>
  A tick fires exactly the due entries, each once: those enabled whose schedule has a minute
  after their last run and not after now, within the four-year horizon. Their last run becomes
  now, nothing else changes, and the order of the range over the map makes no difference but the
  order of the firings.
\<close>

theorem dispatch_fires_due:
  assumes "registered_ok s" and "distinct order" and "set order = dom (s_entries s)"
  shows "\<exists>fired. dispatch now order s =
      (fired, s\<lparr>s_lastRun := \<lambda>name. if due now s name then Some now else s_lastRun s name\<rparr>) \<and>
    distinct (map e_Name fired) \<and>
    (\<forall>e. e \<in> set fired \<longleftrightarrow> s_entries s (e_Name e) = Some e \<and> due now s (e_Name e))"
  using assms by (rule dispatch_due)

section \<open>Runs\<close>

lemma Register_ok: "registered_ok s \<Longrightarrow> registered_ok (snd (Register e s))"
  unfolding Register_def by (auto simp: registered_ok_def split: sum.split)

lemma dispatch_ok:
  assumes "registered_ok s" and "0 \<le> now"
  shows "registered_ok (snd (dispatch now order s))"
  using assms by (auto simp: dispatch_def dispatch_loop_eq registered_ok_def)

lemma scheduler_step_ok: "registered_ok s \<Longrightarrow> valid_op op s \<Longrightarrow> registered_ok (scheduler_step op s)"
  by (cases op) (auto simp: Register_ok dispatch_ok Start_scheduler_def Stop_scheduler_def, auto simp: registered_ok_def)

fun valid_run :: "scheduler_op list \<Rightarrow> Scheduler \<Rightarrow> bool" where
  "valid_run [] s \<longleftrightarrow> True"
| "valid_run (op # ops) s \<longleftrightarrow> valid_op op s \<and> valid_run ops (scheduler_step op s)"

text \<open>
  However entries are registered and replaced, the scheduler started and stopped and ticks
  run, every entry is stored under its own non-empty name with the schedule parsed from its own
  expression, at most one tick loop is alive, and none is once the scheduler is stopped.
\<close>

theorem scheduler_invariant:
  assumes "valid_run ops (New_scheduler tick)"
  shows "registered_ok (fold scheduler_step ops (New_scheduler tick))"
proof -
  have "valid_run ops s \<Longrightarrow> registered_ok s \<Longrightarrow> registered_ok (fold scheduler_step ops s)" for s
    by (induction ops arbitrary: s) (simp_all add: scheduler_step_ok)
  moreover have "registered_ok (New_scheduler tick)" by (simp add: registered_ok_def)
  ultimately show ?thesis using assms by blast
qed

definition leap_entry :: Entry where
  "leap_entry = \<lparr>e_Name = ''leap'', e_Cron = ''0 0 29 2 *'', e_Job = zero_Job, e_Handler = None, e_Enabled = True\<rparr>"

lemma leap_registered:
  "snd (Register leap_entry (New_scheduler 0)) = (New_scheduler 0)\<lparr>s_entries := [''leap'' \<mapsto> leap_entry],
     s_schedules := [''leap'' \<mapsto> leap_day_schedule]\<rparr>" "fst (Register leap_entry (New_scheduler 0)) = Inr ()"
  by (simp_all add: Register_def leap_entry_def leap_day_parsed)

lemma leap_entry_parsed: "parseCron (e_Cron leap_entry) = Inr leap_day_schedule"
  by (simp add: leap_entry_def leap_day_parsed)

lemma New_scheduler_ok: "registered_ok (New_scheduler k)"
  by (simp add: registered_ok_def)

theorem scheduler_invariant_witness:
  "registered_ok (fold scheduler_step [OpRegister leap_entry, OpStart, OpTick 5000000000000 [''leap''], OpStop] (New_scheduler 0))"
  by (rule scheduler_invariant) (simp add: leap_registered Start_scheduler_def)

text \<open>
  A newly registered enabled entry fires at the very first tick, whatever its expression:
  its last run is the zero time of year 1, and any schedule with a match in the first four years
  of the calendar has been due since then.
\<close>

theorem fresh_entry_fires_at_once:
  assumes "registered_ok s" and "Register e s = (Inr (), s')" and "s_lastRun s (e_Name e) = None" and "e_Enabled e"
    and "parseCron (e_Cron e) = Inr c" and "Minute dvd m" "0 < m" "m < 1460 * Day" "cron_matches c m" and "m \<le> now"
    and "distinct order" and "set order = dom (s_entries s')"
  shows "e \<in> set (fst (dispatch now order s'))"
proof -
  have s': "s' = s\<lparr>s_entries := (s_entries s)(e_Name e \<mapsto> e), s_schedules := (s_schedules s)(e_Name e \<mapsto> c)\<rparr>"
    using assms(2,5) by (simp add: Register_def split: if_splits)
  then have "due now s' (e_Name e)"
    unfolding due_def using assms(3-10) by (auto simp: last_run_def)
  moreover have "registered_ok s'" using Register_ok [OF assms(1), of e] assms(2) by simp
  ultimately show ?thesis
    using dispatch_due [of s' order now] assms(11,12) s' by auto
qed

lemma leap_minute:
  "Minute dvd time_Date 4 2 29 0" "0 < time_Date 4 2 29 0" "time_Date 4 2 29 0 < 1460 * Day"
  "cron_matches leap_day_schedule (time_Date 4 2 29 0)"
proof -
  have "valid_date 4 2 29" by (simp add: valid_date_def days_in_month_def month_lengths_def leap_year_def)
  note civ = civil_day_number [OF this]
  have t: "time_Date 4 2 29 0 = day_number 4 2 29 * Day" "Minute dvd Day" "Hour dvd n * Day" "Day \<noteq> 0" for n
    by (simp_all add: time_Date_eq Day_hours Hour_minutes, simp add: duration_defs)
  then show "Minute dvd time_Date 4 2 29 0" by simp
  show "cron_matches leap_day_schedule (time_Date 4 2 29 0)"
    using civ t by (simp add: leap_day_matches time_defs)
  have n: "day_number 4 2 29 = 1154"
    by (simp add: day_number_def days_before_year_def days_before_month_def month_lengths_def)
  show "0 < time_Date 4 2 29 0" "time_Date 4 2 29 0 < 1460 * Day" unfolding t(1) n using Day_pos by linarith+
qed

theorem fresh_entry_fires_at_once_witness:
  "leap_entry \<in> set (fst (dispatch (1460 * Day) [''leap''] (snd (Register leap_entry (New_scheduler 0)))))"
proof (rule fresh_entry_fires_at_once [OF New_scheduler_ok _ _ _ leap_entry_parsed leap_minute(1-4)])
  show "Register leap_entry (New_scheduler 0) = (Inr (), snd (Register leap_entry (New_scheduler 0)))"
    using leap_registered(2) by (simp add: prod_eq_iff)
qed (use leap_minute(3) in \<open>simp_all add: leap_registered(1), simp_all add: leap_entry_def\<close>)

theorem dispatch_fires_due_witness:
  "let s = snd (Register leap_entry (New_scheduler 0))
   in due (1460 * Day) s ''leap'' \<and> leap_entry \<in> set (fst (dispatch (1460 * Day) [''leap''] s))"
proof -
  define s where "s = snd (Register leap_entry (New_scheduler 0))"
  have ok: "registered_ok s" unfolding s_def by (intro Register_ok New_scheduler_ok)
  have s: "s_entries s = [''leap'' \<mapsto> leap_entry]" "s_lastRun s = Map.empty"
    by (simp_all add: s_def leap_registered)
  have e: "e_Name leap_entry = ''leap''" "e_Enabled leap_entry" by (simp_all add: leap_entry_def)
  have due: "due (1460 * Day) s ''leap''"
    unfolding due_def using leap_minute leap_entry_parsed e
    by (intro exI [of _ leap_entry] exI [of _ leap_day_schedule] exI [of _ "time_Date 4 2 29 0"])
      (simp add: s last_run_def)
  have "distinct [''leap'']" "set [''leap''] = dom (s_entries s)" by (simp_all add: s)
  from dispatch_fires_due [OF ok this, of "1460 * Day"]
  have "s_entries s (e_Name leap_entry) = Some leap_entry \<and> due (1460 * Day) s (e_Name leap_entry) \<longrightarrow>
      leap_entry \<in> set (fst (dispatch (1460 * Day) [''leap''] s))"
    by (elim exE conjE) simp
  with due show ?thesis by (simp add: Let_def s e flip: s_def)
qed

end
