(* ===== verification/Encoding.thy ===== *)
theory Encoding
  imports Conduit_Prelude "HOL-Library.Word"
begin

text \<open>
  The textual encodings of the Go standard library that the source relies on:
  \<open>hex.EncodeToString\<close>, behind lease tokens, lock values and job identifiers, and the verb
  \<open>%q\<close> of error messages. Text is a list of bytes (\<open>string\<close>), as a Go string is.
\<close>

section \<open>Hexadecimal\<close>

type_synonym byte = "8 word"

definition hex_digit :: "nat \<Rightarrow> char" where
  "hex_digit n = ''0123456789abcdef'' ! n"

fun hex_EncodeToString :: "byte list \<Rightarrow> string" where
  "hex_EncodeToString [] = ''''"
| "hex_EncodeToString (b # bs) =
     hex_digit (unat b div 16) # hex_digit (unat b mod 16) # hex_EncodeToString bs"

lemma length_hex_EncodeToString [simp]: "length (hex_EncodeToString bs) = 2 * length bs"
  by (induction bs rule: hex_EncodeToString.induct) simp_all

lemma hex_EncodeToString_eq_Nil [simp]: "hex_EncodeToString bs = '''' \<longleftrightarrow> bs = []"
  by (cases bs) simp_all

lemma inj_hex_digit: "inj_on hex_digit {0..<16}"
proof -
  have "distinct ''0123456789abcdef''" by simp
  moreover have "length ''0123456789abcdef'' = 16" by simp
  ultimately show ?thesis
    unfolding inj_on_def hex_digit_def
    by (intro ballI impI) (metis atLeastLessThan_iff nth_eq_iff_index_eq)
qed

lemma unat_byte_less [simp]: "unat (b :: byte) < 256"
  using unsigned_less [of b] by simp

lemma hex_EncodeToString_inject: "hex_EncodeToString as = hex_EncodeToString bs \<longleftrightarrow> as = bs"
proof (induction as arbitrary: bs)
  case Nil
  then show ?case by (cases bs) simp_all
next
  case (Cons a as)
  have eq: "a = b" if "hex_digit (unat a div 16) = hex_digit (unat b div 16)"
    and "hex_digit (unat a mod 16) = hex_digit (unat b mod 16)" for b :: byte
  proof -
    have "unat a div 16 < 16" "unat b div 16 < 16"
      by (simp_all add: div_less_iff_less_mult)
    then have "unat a div 16 = unat b div 16" and "unat a mod 16 = unat b mod 16"
      using that by (auto dest!: inj_onD [OF inj_hex_digit])
    then have "unat a = unat b" by (metis div_mult_mod_eq)
    then show ?thesis by (rule word_unat_eq_iff [THEN iffD2])
  qed
  show ?case
  proof (cases bs)
    case (Cons b bs')
    then show ?thesis using Cons.IH [of bs'] eq [of b] by auto
  qed simp
qed

section \<open>Quoted strings\<close>

text \<open>The verb \<open>%q\<close>; bytes from 128 on, parts of multi-byte characters, are kept as they are.\<close>

definition quote_char :: "char \<Rightarrow> string" where
  "quote_char c = (let n = of_char c :: nat in
     if c = CHR 0x22 then [CHR 0x5C, CHR 0x22] else if c = CHR 0x5C then [CHR 0x5C, CHR 0x5C]
     else if n = 7 then [CHR 0x5C, CHR ''a''] else if n = 8 then [CHR 0x5C, CHR ''b'']
     else if n = 9 then [CHR 0x5C, CHR ''t''] else if n = 10 then [CHR 0x5C, CHR ''n'']
     else if n = 11 then [CHR 0x5C, CHR ''v''] else if n = 12 then [CHR 0x5C, CHR ''f'']
     else if n = 13 then [CHR 0x5C, CHR ''r'']
     else if n < 32 \<or> n = 127 then [CHR 0x5C, CHR ''x'', hex_digit (n div 16), hex_digit (n mod 16)]
     else [c])"

definition quoted :: "string \<Rightarrow> string" where
  "quoted s = [CHR 0x22] @ concat (map quote_char s) @ [CHR 0x22]"

end
