(* ===== verification/Store.thy ===== *)
theory Store
  imports Models Encoding "HOL-Library.Product_Lexorder"
begin

text \<open>
  The durable job store, \<open>src/internal/store/store.go\<close> over the table of
  \<open>src/migrations/001_create_jobs.sql\<close>: every method of \<open>PostgresStore\<close> but
  \<open>ListJobs\<close>, which has a theory of its own.

  The table is a list of rows in an arbitrary physical order. The columns
  \<open>task_id\<close> to \<open>task_metadata\<close> are stored and read back unchanged and stay together
  as a \<open>Task\<close>; the other columns are fields of the row, nullable ones as options. Each
  SQL statement of the source is one update of the table; \<open>json.Marshal\<close> of a
  \<open>map[string]string\<close> cannot fail, so the metadata columns hold the maps themselves.

  What is outside the repository is a parameter. The driver (\<open>pg\<close>): what \<open>Scan\<close> does
  with a NULL and a \<open>*string\<close>, and the value a timestamp column holds after a Go time was
  written to it. A call of a method (\<open>call\<close>): the two clocks (\<open>time.Now()\<close> and the
  server's \<open>NOW()\<close>), the bytes \<open>rand.Read\<close> delivers, the rows other transactions
  have locked, the driver's failure of the method's first and second statement, and what
  other sessions do to the table between the two statements.
\<close>

section \<open>Rows and errors\<close>

record row =
  row_id :: string
  row_idempotency_key :: "string option"
  row_task :: Task
  row_state :: string
  row_attempt :: int
  row_last_error :: string
  row_scheduled_at :: "instant option"
  row_started_at :: "instant option"
  row_lease_expires_at :: "instant option"
  row_lease_token :: "string option"
  row_completed_at :: "instant option"
  row_created_at :: instant
  row_updated_at :: instant
  row_metadata :: metadata

type_synonym table = "row list"

datatype pg_error = PgError (pg_Code: string) (pg_ConstraintName: string) | OtherError string

datatype store_error =
    ErrJobNotFound
  | ErrInvalidTransition
  | ErrDuplicateIdempotencyKey
  | ErrDriver pg_error
  | ErrGenerateToken

record pg =
  scan_null :: "string + string"
  stored :: "instant \<Rightarrow> instant"

record call =
  c_now :: instant
  c_db_now :: instant
  c_rand :: "byte list option"
  c_locked :: "string \<Rightarrow> bool"
  c_fault :: "pg_error option"
  c_fault2 :: "pg_error option"
  c_between :: "table \<Rightarrow> table"

text \<open>A call during which nothing fails and no other session touches the table.\<close>

definition quiet :: "instant \<Rightarrow> byte list \<Rightarrow> call" where
  "quiet now bs =
     \<lparr>c_now = now, c_db_now = now, c_rand = Some bs, c_locked = (\<lambda>_. False),
      c_fault = None, c_fault2 = None, c_between = id\<rparr>"

section \<open>The state machine\<close>

definition CanTransition :: "JobState \<Rightarrow> JobState \<Rightarrow> bool" where
  "CanTransition from to =
     (if from = JobStateCompleted \<or> from = JobStateDead then False
      else if from = JobStatePending then to = JobStateRunning \<or> to = JobStateDead
      else if from = JobStateRunning then
        to = JobStateCompleted \<or> to = JobStateFailed \<or> to = JobStateDead
      else if from = JobStateFailed then to = JobStatePending \<or> to = JobStateDead
      else False)"

section \<open>Helpers\<close>

definition nullableString :: "string \<Rightarrow> string option" where
  "nullableString value = (if value = '''' then None else Some value)"

definition newLeaseToken :: "call \<Rightarrow> store_error + string" where
  "newLeaseToken c =
     (case c_rand c of None \<Rightarrow> Inl ErrGenerateToken | Some bs \<Rightarrow> Inr (hex_EncodeToString bs))"

definition isIdempotencyUniqueViolation :: "pg_error \<Rightarrow> bool" where
  "isIdempotencyUniqueViolation err =
     (case err of
        PgError code constraint \<Rightarrow> code = ''23505'' \<and> constraint = ''jobs_idempotency_key_idx''
      | OtherError _ \<Rightarrow> False)"

definition scan_text :: "pg \<Rightarrow> string option \<Rightarrow> store_error + string" where
  "scan_text pg v =
     (case v of
        Some s \<Rightarrow> Inr s
      | None \<Rightarrow> (case scan_null pg of Inl e \<Rightarrow> Inl (ErrDriver (OtherError e)) | Inr s \<Rightarrow> Inr s))"

definition scanJob :: "pg \<Rightarrow> row \<Rightarrow> store_error + Job" where
  "scanJob pg r =
     (case scan_text pg (row_idempotency_key r) of
        Inl e \<Rightarrow> Inl e
      | Inr key \<Rightarrow>
          (case scan_text pg (row_lease_token r) of
             Inl e \<Rightarrow> Inl e
           | Inr tok \<Rightarrow>
               Inr \<lparr>job_ID = row_id r, job_IdempotencyKey = key, job_Task = row_task r,
                    job_State = row_state r, job_Attempt = row_attempt r,
                    job_ScheduledAt = row_scheduled_at r, job_StartedAt = row_started_at r,
                    job_LeaseExpiresAt = row_lease_expires_at r, job_LeaseToken = tok,
                    job_CompletedAt = row_completed_at r, job_LastError = row_last_error r,
                    job_Metadata = row_metadata r, job_CreatedAt = row_created_at r,
                    job_UpdatedAt = row_updated_at r\<rparr>))"

text \<open>\<open>UPDATE ... SET ... WHERE ...\<close>: the number of rows affected and the new table.\<close>

definition update_where :: "(row \<Rightarrow> bool) \<Rightarrow> (row \<Rightarrow> row) \<Rightarrow> table \<Rightarrow> nat \<times> table" where
  "update_where p f tbl = (length (filter p tbl), map (\<lambda>r. if p r then f r else r) tbl)"

section \<open>Reading\<close>

text \<open>\<open>QueryRow\<close> with \<open>pgx.ErrNoRows\<close> mapped to \<open>ErrJobNotFound\<close>, shared by the two getters.\<close>

definition query_row :: "pg \<Rightarrow> call \<Rightarrow> (row \<Rightarrow> bool) \<Rightarrow> table \<Rightarrow> store_error + Job" where
  "query_row pg c p tbl =
     (case c_fault c of
        Some e \<Rightarrow> Inl (ErrDriver e)
      | None \<Rightarrow> (case find p tbl of None \<Rightarrow> Inl ErrJobNotFound | Some r \<Rightarrow> scanJob pg r))"

definition GetJob :: "pg \<Rightarrow> call \<Rightarrow> string \<Rightarrow> table \<Rightarrow> store_error + Job" where
  "GetJob pg c i tbl = query_row pg c (\<lambda>r. row_id r = i) tbl"

definition GetJobByIdempotencyKey :: "pg \<Rightarrow> call \<Rightarrow> string \<Rightarrow> table \<Rightarrow> store_error + Job" where
  "GetJobByIdempotencyKey pg c key tbl = query_row pg c (\<lambda>r. row_idempotency_key r = Some key) tbl"

section \<open>Writing\<close>

text \<open>
  \<open>INSERT\<close> under the primary key and the partial unique index on \<open>idempotency_key\<close>
  of the migration.
\<close>

definition insert_row :: "row \<Rightarrow> table \<Rightarrow> pg_error + table" where
  "insert_row r tbl =
     (if \<exists>q \<in> set tbl. row_id q = row_id r then Inl (PgError ''23505'' ''jobs_pkey'')
      else if row_idempotency_key r \<noteq> None \<and>
              (\<exists>q \<in> set tbl. row_idempotency_key q = row_idempotency_key r)
           then Inl (PgError ''23505'' ''jobs_idempotency_key_idx'')
      else Inr (tbl @ [r]))"

definition row_of_job :: "pg \<Rightarrow> Job \<Rightarrow> row" where
  "row_of_job pg job =
     \<lparr>row_id = job_ID job, row_idempotency_key = nullableString (job_IdempotencyKey job),
      row_task = job_Task job, row_state = job_State job, row_attempt = job_Attempt job,
      row_last_error = job_LastError job,
      row_scheduled_at = map_option (stored pg) (job_ScheduledAt job),
      row_started_at = map_option (stored pg) (job_StartedAt job),
      row_lease_expires_at = map_option (stored pg) (job_LeaseExpiresAt job),
      row_lease_token = nullableString (job_LeaseToken job),
      row_completed_at = map_option (stored pg) (job_CompletedAt job),
      row_created_at = stored pg (job_CreatedAt job),
      row_updated_at = stored pg (job_UpdatedAt job), row_metadata = job_Metadata job\<rparr>"

definition CreateJob :: "pg \<Rightarrow> call \<Rightarrow> Job \<Rightarrow> table \<Rightarrow> (store_error + unit) \<times> table" where
  "CreateJob pg c job tbl =
     (let now = c_now c;
          job = (if job_CreatedAt job = 0 then job\<lparr>job_CreatedAt := now\<rparr> else job);
          job = job\<lparr>job_UpdatedAt := now\<rparr>;
          res = (case c_fault c of Some e \<Rightarrow> Inl e | None \<Rightarrow> insert_row (row_of_job pg job) tbl)
      in case res of
           Inl err \<Rightarrow>
             (if isIdempotencyUniqueViolation err then (Inl ErrDuplicateIdempotencyKey, tbl)
              else (Inl (ErrDriver err), tbl))
         | Inr tbl' \<Rightarrow> (Inr (), tbl'))"

definition update_hit :: "Job \<Rightarrow> row \<Rightarrow> bool" where
  "update_hit job r \<longleftrightarrow> row_id r = job_ID job \<and>
     (job_LeaseToken job = '''' \<or> row_lease_token r = Some (job_LeaseToken job) \<or>
      (row_state r = JobStatePending \<and> job_State job = JobStateRunning \<and> row_lease_token r = None))"

definition update_set :: "pg \<Rightarrow> call \<Rightarrow> Job \<Rightarrow> row \<Rightarrow> row" where
  "update_set pg c job r =
     r\<lparr>row_state := job_State job, row_attempt := job_Attempt job,
       row_last_error := job_LastError job,
       row_scheduled_at := map_option (stored pg) (job_ScheduledAt job),
       row_started_at := map_option (stored pg) (job_StartedAt job),
       row_lease_expires_at := map_option (stored pg) (job_LeaseExpiresAt job),
       row_lease_token :=
         (if job_State job \<in> {JobStateCompleted, JobStateDead, JobStatePending} then None
          else nullableString (job_LeaseToken job)),
       row_completed_at := map_option (stored pg) (job_CompletedAt job),
       row_updated_at := stored pg (c_now c), row_metadata := job_Metadata job,
       row_task := (row_task r)\<lparr>task_Metadata := task_Metadata (job_Task job),
                                task_RetryCount := task_RetryCount (job_Task job)\<rparr>\<rparr>"

definition UpdateJob :: "pg \<Rightarrow> call \<Rightarrow> Job \<Rightarrow> table \<Rightarrow> (store_error + unit) \<times> table" where
  "UpdateJob pg c job tbl =
     (case GetJob pg c (job_ID job) tbl of
        Inl err \<Rightarrow> (Inl err, tbl)
      | Inr existing \<Rightarrow>
          (if \<not> CanTransition (job_State existing) (job_State job) then (Inl ErrInvalidTransition, tbl)
           else
             (let tbl = c_between c tbl
              in case c_fault2 c of
                   Some err \<Rightarrow> (Inl (ErrDriver err), tbl)
                 | None \<Rightarrow>
                     (let (n, tbl') = update_where (update_hit job) (update_set pg c job) tbl
                      in if n = 0 then (Inl ErrInvalidTransition, tbl') else (Inr (), tbl')))))"

definition CancelJob :: "pg \<Rightarrow> call \<Rightarrow> string \<Rightarrow> table \<Rightarrow> (store_error + unit) \<times> table" where
  "CancelJob pg c i tbl =
     (case GetJob pg c i tbl of
        Inl err \<Rightarrow> (Inl err, tbl)
      | Inr job \<Rightarrow>
          (if \<not> CanTransition (job_State job) JobStateDead then (Inl ErrInvalidTransition, tbl)
           else
             (let tbl = c_between c tbl
              in case c_fault2 c of
                   Some err \<Rightarrow> (Inl (ErrDriver err), tbl)
                 | None \<Rightarrow>
                     (Inr (), snd (update_where (\<lambda>r. row_id r = i)
                        (\<lambda>r. r\<lparr>row_state := JobStateDead, row_updated_at := stored pg (c_now c)\<rparr>)
                        tbl)))))"

section \<open>Claims and leases\<close>

text \<open>\<open>ORDER BY scheduled_at ASC NULLS LAST\<close>\<close>

definition nulls_last :: "instant option \<Rightarrow> bool \<times> instant" where
  "nulls_last v = (case v of None \<Rightarrow> (True, 0) | Some t \<Rightarrow> (False, t))"

definition claimable :: "call \<Rightarrow> row \<Rightarrow> bool" where
  "claimable c r \<longleftrightarrow> row_state r = JobStatePending \<and>
     (case row_scheduled_at r of None \<Rightarrow> True | Some t \<Rightarrow> t \<le> c_db_now c) \<and> \<not> c_locked c (row_id r)"

definition select_claim :: "call \<Rightarrow> table \<Rightarrow> row list" where
  "select_claim c tbl =
     take 1 (sort_key (\<lambda>r. nulls_last (row_scheduled_at r)) (filter (claimable c) tbl))"

definition claim_set :: "pg \<Rightarrow> call \<Rightarrow> duration \<Rightarrow> string \<Rightarrow> row \<Rightarrow> row" where
  "claim_set pg c leaseDuration leaseToken r =
     r\<lparr>row_state := JobStateRunning, row_attempt := row_attempt r + 1,
       row_started_at := Some (stored pg (c_now c)),
       row_lease_expires_at := Some (stored pg (c_now c + leaseDuration)),
       row_lease_token := Some leaseToken, row_updated_at := stored pg (c_now c)\<rparr>"

definition ClaimNextJob :: "pg \<Rightarrow> call \<Rightarrow> duration \<Rightarrow> table \<Rightarrow> (store_error + Job) \<times> table" where
  "ClaimNextJob pg c leaseDuration tbl =
     (case newLeaseToken c of
        Inl e \<Rightarrow> (Inl e, tbl)
      | Inr leaseToken \<Rightarrow>
          (case c_fault c of
             Some e \<Rightarrow> (Inl (ErrDriver e), tbl)
           | None \<Rightarrow>
               (case select_claim c tbl of
                  [] \<Rightarrow> (Inl ErrJobNotFound, tbl)
                | r # _ \<Rightarrow>
                    (scanJob pg (claim_set pg c leaseDuration leaseToken r),
                     snd (update_where (\<lambda>q. row_id q = row_id r)
                            (claim_set pg c leaseDuration leaseToken) tbl)))))"

definition holds_lease :: "Job \<Rightarrow> row \<Rightarrow> bool" where
  "holds_lease job r \<longleftrightarrow> row_id r = job_ID job \<and> row_state r = JobStateRunning \<and>
     row_lease_token r = Some (job_LeaseToken job)"

definition RenewLease :: "pg \<Rightarrow> call \<Rightarrow> Job \<Rightarrow> duration \<Rightarrow> table \<Rightarrow> (store_error + unit) \<times> table" where
  "RenewLease pg c job leaseDuration tbl =
     (if job_LeaseToken job = '''' then (Inl ErrInvalidTransition, tbl)
      else case c_fault c of
             Some e \<Rightarrow> (Inl (ErrDriver e), tbl)
           | None \<Rightarrow>
               (let (n, tbl') = update_where (holds_lease job)
                      (\<lambda>r. r\<lparr>row_lease_expires_at := Some (stored pg (c_now c + leaseDuration)),
                             row_updated_at := c_db_now c\<rparr>) tbl
                in if n = 0 then (Inl ErrInvalidTransition, tbl') else (Inr (), tbl')))"

definition ReleaseClaim :: "pg \<Rightarrow> call \<Rightarrow> Job \<Rightarrow> string \<Rightarrow> table \<Rightarrow> (store_error + unit) \<times> table" where
  "ReleaseClaim pg c job reason tbl =
     (case c_fault c of
        Some e \<Rightarrow> (Inl (ErrDriver e), tbl)
      | None \<Rightarrow>
          (let (n, tbl') = update_where (holds_lease job)
                 (\<lambda>r. r\<lparr>row_state := JobStatePending, row_last_error := reason,
                        row_started_at := None, row_lease_expires_at := None,
                        row_lease_token := None, row_updated_at := c_db_now c\<rparr>) tbl
           in if n = 0 then (Inl ErrInvalidTransition, tbl') else (Inr (), tbl')))"

definition lease_expired :: "call \<Rightarrow> row \<Rightarrow> bool" where
  "lease_expired c r \<longleftrightarrow> row_state r = JobStateRunning \<and>
     (case row_lease_expires_at r of None \<Rightarrow> False | Some t \<Rightarrow> t \<le> c_db_now c) \<and> \<not> c_locked c (row_id r)"

definition select_expired :: "call \<Rightarrow> int \<Rightarrow> table \<Rightarrow> row list" where
  "select_expired c limit tbl =
     take (nat limit) (sort_key (\<lambda>r. the (row_lease_expires_at r)) (filter (lease_expired c) tbl))"

definition retries_exhausted :: "row \<Rightarrow> bool" where
  "retries_exhausted r \<longleftrightarrow>
     task_MaxRetries (row_task r) > 0 \<and> row_attempt r \<ge> task_MaxRetries (row_task r)"

definition requeue_set :: "call \<Rightarrow> row \<Rightarrow> row" where
  "requeue_set c r =
     r\<lparr>row_state := (if retries_exhausted r then JobStateDead else JobStatePending),
       row_last_error := ''job lease expired before completion'',
       row_scheduled_at := (if retries_exhausted r then row_scheduled_at r else Some (c_db_now c)),
       row_started_at := None, row_lease_expires_at := None, row_lease_token := None,
       row_updated_at := c_db_now c\<rparr>"

definition RequeueExpiredRunning :: "call \<Rightarrow> int \<Rightarrow> table \<Rightarrow> (store_error + int) \<times> table" where
  "RequeueExpiredRunning c limit tbl =
     (if limit \<le> 0 then (Inr 0, tbl)
      else case c_fault c of
             Some e \<Rightarrow> (Inl (ErrDriver e), tbl)
           | None \<Rightarrow>
               (let ids = map row_id (select_expired c limit tbl);
                    (n, tbl') = update_where (\<lambda>r. row_id r \<in> set ids) (requeue_set c) tbl
                in (Inr (int n), tbl')))"

end
