(* ===== verification/Store_Facts.thy ===== *)
theory Store_Facts
  imports Store
begin

text \<open>
  What the operations of the store keep and what they change: the uniqueness of identifiers
  and idempotency keys, the job state machine, lease fencing, claims and lease recovery.
\<close>

section \<open>Row-wise updates\<close>

declare update_where_def [simp]

lemma update_where_none:
  "filter p tbl = [] \<Longrightarrow> map (\<lambda>r. if p r then f r else r) tbl = tbl"
  by (induction tbl) (auto split: if_splits)

text \<open>
  The columns no statement of the store ever changes after the \<open>INSERT\<close>.
\<close>

definition same_identity :: "row \<Rightarrow> row \<Rightarrow> bool" where
  "same_identity r q \<longleftrightarrow> row_id q = row_id r \<and> row_idempotency_key q = row_idempotency_key r \<and>
     row_created_at q = row_created_at r \<and> task_ID (row_task q) = task_ID (row_task r) \<and>
     task_Name (row_task q) = task_Name (row_task r) \<and>
     task_Payload (row_task q) = task_Payload (row_task r) \<and>
     task_MaxRetries (row_task q) = task_MaxRetries (row_task r)"

lemma same_identity_refl [simp]: "same_identity r r"
  by (simp add: same_identity_def)

lemma same_identity_trans: "same_identity r q \<Longrightarrow> same_identity q s \<Longrightarrow> same_identity r s"
  by (simp add: same_identity_def)

lemma same_identity_sets [simp]:
  "same_identity r (update_set pg c job r)" "same_identity r (claim_set pg c d tok r)"
  "same_identity r (requeue_set c r)"
  by (simp_all add: same_identity_def update_set_def claim_set_def requeue_set_def)

text \<open>
  One step of the documented life cycle, together with the recovery of a claimed job
  (\<open>RUNNING\<close> back to \<open>PENDING\<close>, by \<open>ReleaseClaim\<close> and
  \<open>RequeueExpiredRunning\<close>).
\<close>

definition legal_move :: "JobState \<Rightarrow> JobState \<Rightarrow> bool" where
  "legal_move from to \<longleftrightarrow>
     to = from \<or> CanTransition from to \<or> from = JobStateRunning \<and> to = JobStatePending"

definition row_step :: "row \<Rightarrow> row \<Rightarrow> bool" where
  "row_step r q \<longleftrightarrow> same_identity r q \<and> legal_move (row_state r) (row_state q)"

lemma row_step_refl [simp]: "row_step r r"
  by (simp add: row_step_def legal_move_def)

lemma terminal_absorbing:
  "row_step r q \<Longrightarrow> row_state r \<in> {JobStateCompleted, JobStateDead} \<Longrightarrow> row_state q = row_state r"
  by (auto simp: row_step_def legal_move_def CanTransition_def)

lemma list_all2_map_update:
  "(\<And>r. r \<in> set tbl \<Longrightarrow> p r \<Longrightarrow> R r (f r)) \<Longrightarrow> (\<And>r. R r r) \<Longrightarrow>
     list_all2 R tbl (map (\<lambda>r. if p r then f r else r) tbl)"
  by (auto simp: list_all2_map2 list.rel_map intro!: list.rel_refl_strong)

section \<open>The table invariant\<close>

definition table_inv :: "table \<Rightarrow> bool" where
  "table_inv tbl \<longleftrightarrow> distinct (map row_id tbl) \<and>
     distinct (filter (\<lambda>k. k \<noteq> None) (map row_idempotency_key tbl)) \<and>
     Some '''' \<notin> set (map row_idempotency_key tbl)"

lemma table_inv_Nil [simp]: "table_inv []"
  by (simp add: table_inv_def)

lemma find_unique:
  "distinct (map k tbl) \<Longrightarrow> r \<in> set tbl \<Longrightarrow> find (\<lambda>q. k q = k r) tbl = Some r"
  by (induction tbl) (auto simp: image_iff)

lemma find_None: "(\<And>r. r \<in> set tbl \<Longrightarrow> \<not> p r) \<Longrightarrow> find p tbl = None"
  by (auto simp: find_None_iff)

lemma table_inv_rowwise:
  assumes "list_all2 same_identity tbl tbl'" and "table_inv tbl"
  shows "table_inv tbl'"
proof -
  have "map row_id tbl' = map row_id tbl \<and> map row_idempotency_key tbl' = map row_idempotency_key tbl"
    using assms(1) by (induction rule: list_all2_induct) (auto simp: same_identity_def)
  then show ?thesis
    using assms(2) unfolding table_inv_def by metis
qed

lemma insert_row_Inr:
  "insert_row r tbl = Inr tbl' \<longleftrightarrow> tbl' = tbl @ [r] \<and> (\<forall>q \<in> set tbl. row_id q \<noteq> row_id r) \<and>
     (row_idempotency_key r \<noteq> None \<longrightarrow> (\<forall>q \<in> set tbl. row_idempotency_key q \<noteq> row_idempotency_key r))"
  by (auto simp: insert_row_def)

lemma table_inv_insert:
  assumes "insert_row r tbl = Inr tbl'" and "table_inv tbl" and "row_idempotency_key r \<noteq> Some ''''"
  shows "table_inv tbl'"
proof -
  have "tbl' = tbl @ [r]" and "row_id r \<notin> set (map row_id tbl)"
    and "row_idempotency_key r \<noteq> None \<longrightarrow> row_idempotency_key r \<notin> set (map row_idempotency_key tbl)"
    using assms(1) by (auto simp: insert_row_Inr)
  then show ?thesis
    using assms(2,3) unfolding table_inv_def by simp
qed

lemma table_inv_keyD:
  assumes "table_inv tbl" "r \<in> set tbl" "q \<in> set tbl"
    and "row_idempotency_key r = Some k" "row_idempotency_key q = Some k"
  shows "r = q"
proof -
  have "distinct (map row_idempotency_key (filter (\<lambda>r. row_idempotency_key r \<noteq> None) tbl))"
    using assms(1) by (simp add: table_inv_def filter_map comp_def)
  then show ?thesis
    by (rule distinct_map_eqD) (use assms in auto)
qed

lemma table_inv_idD:
  "table_inv tbl \<Longrightarrow> r \<in> set tbl \<Longrightarrow> q \<in> set tbl \<Longrightarrow> row_id r = row_id q \<Longrightarrow> r = q"
  unfolding table_inv_def by (blast dest: distinct_map_eqD)

section \<open>Each operation, row by row\<close>

lemma scan_text_Some [simp]: "scan_text pg (Some s) = Inr s"
  by (simp add: scan_text_def)

lemma scanJob_Inr:
  assumes "scanJob pg r = Inr job"
  shows "job_ID job = row_id r \<and> job_State job = row_state r \<and> job_Attempt job = row_attempt r \<and>
    job_Task job = row_task r \<and> job_ScheduledAt job = row_scheduled_at r \<and>
    job_LeaseExpiresAt job = row_lease_expires_at r \<and>
    scan_text pg (row_idempotency_key r) = Inr (job_IdempotencyKey job) \<and>
    scan_text pg (row_lease_token r) = Inr (job_LeaseToken job)"
proof (cases "scan_text pg (row_idempotency_key r)")
  case (Inr key)
  with assms show ?thesis
    by (cases "scan_text pg (row_lease_token r)") (auto simp: scanJob_def)
qed (use assms in \<open>simp add: scanJob_def\<close>)

lemma GetJob_Inr:
  assumes "GetJob pg c i tbl = Inr job"
  obtains r where "r \<in> set tbl" "row_id r = i" "scanJob pg r = Inr job"
  using assms
  by (auto simp: GetJob_def query_row_def dest: find_SomeD split: option.splits)

lemma UpdateJob_rows:
  assumes "table_inv tbl" and "c_between c = id"
  shows "list_all2 row_step tbl (snd (UpdateJob pg c job tbl))"
proof (cases "GetJob pg c (job_ID job) tbl")
  case (Inl e)
  then show ?thesis by (simp add: UpdateJob_def list.rel_refl)
next
  case (Inr existing)
  then obtain r where r: "r \<in> set tbl" "row_id r = job_ID job" "scanJob pg r = Inr existing"
    by (rule GetJob_Inr)
  have "row_step q (update_set pg c job q)"
    if C: "CanTransition (job_State existing) (job_State job)" and "q \<in> set tbl" and "update_hit job q" for q
  proof -
    have "row_id q = row_id r" using that(3) r(2) by (simp add: update_hit_def)
    then have "q = r" by (rule table_inv_idD [OF assms(1) that(2) r(1)])
    then have "CanTransition (row_state q) (row_state (update_set pg c job q))"
      using C scanJob_Inr [OF r(3)] by (simp add: update_set_def)
    then show ?thesis by (simp add: row_step_def legal_move_def)
  qed
  then have "list_all2 row_step tbl (map (\<lambda>r. if update_hit job r then update_set pg c job r else r) tbl)"
    if "CanTransition (job_State existing) (job_State job)"
    using that by (intro list_all2_map_update) simp_all
  then show ?thesis
    using Inr assms(2) by (simp add: UpdateJob_def list.rel_refl split: option.split)
qed

lemma CancelJob_rows:
  assumes "table_inv tbl" and "c_between c = id"
  shows "list_all2 row_step tbl (snd (CancelJob pg c i tbl))"
proof (cases "GetJob pg c i tbl")
  case (Inl e)
  then show ?thesis by (simp add: CancelJob_def list.rel_refl)
next
  case (Inr existing)
  then obtain r where r: "r \<in> set tbl" "row_id r = i" "scanJob pg r = Inr existing"
    by (rule GetJob_Inr)
  let ?f = "\<lambda>r. r\<lparr>row_state := JobStateDead, row_updated_at := stored pg (c_now c)\<rparr>"
  have "row_step q (?f q)"
    if "CanTransition (job_State existing) JobStateDead" and "q \<in> set tbl" and "row_id q = i" for q
  proof -
    have "q = r" using table_inv_idD [OF assms(1) that(2) r(1)] that(3) r(2) by simp
    then show ?thesis
      using that(1) scanJob_Inr [OF r(3)] by (simp add: row_step_def legal_move_def same_identity_def)
  qed
  then have "list_all2 row_step tbl (map (\<lambda>r. if row_id r = i then ?f r else r) tbl)"
    if "CanTransition (job_State existing) JobStateDead"
    using that by (intro list_all2_map_update) simp_all
  then show ?thesis
    using Inr assms(2) by (simp add: CancelJob_def list.rel_refl split: option.split)
qed

lemma select_claim_mem:
  "r \<in> set (select_claim c tbl) \<Longrightarrow> r \<in> set tbl \<and> claimable c r"
  by (auto simp: select_claim_def dest!: in_set_takeD)

lemma ClaimNextJob_rows:
  assumes "table_inv tbl"
  shows "list_all2 row_step tbl (snd (ClaimNextJob pg c d tbl))"
proof (cases "select_claim c tbl")
  case Nil
  then show ?thesis
    by (auto simp: ClaimNextJob_def list.rel_refl split: sum.splits option.splits)
next
  case (Cons r rs)
  then have r: "r \<in> set tbl" "claimable c r"
    using select_claim_mem [of r c tbl] by auto
  have "row_step q (claim_set pg c d tok q)" if "q \<in> set tbl" and "row_id q = row_id r" for q tok
  proof -
    have "q = r" using table_inv_idD [OF assms that(1) r(1)] that(2) by simp
    then show ?thesis
      using r by (simp add: row_step_def legal_move_def CanTransition_def claimable_def) (simp add: claim_set_def)
  qed
  with Cons show ?thesis
    by (auto simp: ClaimNextJob_def list.rel_refl split: sum.splits option.splits intro!: list_all2_map_update)
qed

lemma RenewLease_rows: "list_all2 row_step tbl (snd (RenewLease pg c job d tbl))"
  by (auto simp: RenewLease_def list.rel_refl row_step_def legal_move_def same_identity_def Let_def
      split: option.splits prod.splits intro!: list_all2_map_update)

lemma ReleaseClaim_rows: "list_all2 row_step tbl (snd (ReleaseClaim pg c job reason tbl))"
  by (auto simp: ReleaseClaim_def list.rel_refl row_step_def legal_move_def same_identity_def holds_lease_def
      split: option.splits intro!: list_all2_map_update)

lemma select_expired_mem:
  "r \<in> set (select_expired c limit tbl) \<Longrightarrow> r \<in> set tbl \<and> lease_expired c r"
  by (auto simp: select_expired_def dest!: in_set_takeD)

lemma RequeueExpiredRunning_rows:
  assumes "table_inv tbl"
  shows "list_all2 row_step tbl (snd (RequeueExpiredRunning c limit tbl))"
proof -
  have "row_step q (requeue_set c q)"
    if "q \<in> set tbl" and "row_id q \<in> set (map row_id (select_expired c limit tbl))" for q
  proof -
    from that(2) obtain r where "row_id q = row_id r" "r \<in> set (select_expired c limit tbl)"
      unfolding set_map by (rule imageE)
    then have "q = r" and "lease_expired c q"
      using that(1) select_expired_mem [of r c limit tbl] table_inv_idD [OF assms, of q r] by auto
    then show ?thesis
      by (simp add: row_step_def legal_move_def lease_expired_def CanTransition_def)
        (simp add: requeue_set_def)
  qed
  then have "list_all2 row_step tbl
      (map (\<lambda>r. if row_id r \<in> set (map row_id (select_expired c limit tbl)) then requeue_set c r else r) tbl)"
    by (intro list_all2_map_update) simp_all
  then show ?thesis
    by (simp add: RequeueExpiredRunning_def list.rel_refl split: option.split)
qed

section \<open>Runs of the store\<close>

text \<open>
  Any history of the table: each entry is one call of a mutating method by some session. The
  statements of a method run back to back in a calm call; in an interleaved one, other
  sessions' calls come between its two statements.
\<close>

datatype store_op =
    OpCreate Job
  | OpUpdate Job
  | OpCancel string
  | OpClaim duration
  | OpRenew Job duration
  | OpRelease Job string
  | OpRequeue int

fun store_step :: "pg \<Rightarrow> call \<times> store_op \<Rightarrow> table \<Rightarrow> table" where
  "store_step pg (c, OpCreate job) tbl = snd (CreateJob pg c job tbl)"
| "store_step pg (c, OpUpdate job) tbl = snd (UpdateJob pg c job tbl)"
| "store_step pg (c, OpCancel i) tbl = snd (CancelJob pg c i tbl)"
| "store_step pg (c, OpClaim d) tbl = snd (ClaimNextJob pg c d tbl)"
| "store_step pg (c, OpRenew job d) tbl = snd (RenewLease pg c job d tbl)"
| "store_step pg (c, OpRelease job reason) tbl = snd (ReleaseClaim pg c job reason tbl)"
| "store_step pg (c, OpRequeue n) tbl = snd (RequeueExpiredRunning c n tbl)"

definition calm :: "call \<times> store_op \<Rightarrow> bool" where
  "calm h \<longleftrightarrow> c_between (fst h) = id"

definition interleaved :: "pg \<Rightarrow> call \<times> store_op \<Rightarrow> bool" where
  "interleaved pg h \<longleftrightarrow> (\<exists>hs. (\<forall>g \<in> set hs. calm g) \<and> c_between (fst h) = fold (store_step pg) hs)"

lemma nullableString_neq [simp]: "nullableString s \<noteq> Some ''''"
  by (simp add: nullableString_def)

lemma row_of_job_key [simp]: "row_idempotency_key (row_of_job pg job) \<noteq> Some ''''"
  by (simp add: row_of_job_def)

lemma CreateJob_table:
  "snd (CreateJob pg c job tbl) = tbl \<or>
     (\<exists>r. insert_row r tbl = Inr (snd (CreateJob pg c job tbl)) \<and> row_idempotency_key r \<noteq> Some '''')"
  by (auto simp: CreateJob_def Let_def split: option.splits sum.splits)

lemma CreateJob_extends: "\<exists>new. snd (CreateJob pg c job tbl) = tbl @ new"
  using CreateJob_table [of pg c job tbl] by (auto simp: insert_row_Inr)

lemma table_inv_CreateJob: "table_inv tbl \<Longrightarrow> table_inv (snd (CreateJob pg c job tbl))"
  using CreateJob_table [of pg c job tbl] by (auto intro: table_inv_insert)

lemma row_step_identity: "list_all2 row_step tbl tbl' \<Longrightarrow> list_all2 same_identity tbl tbl'"
  by (erule list_all2_mono) (simp add: row_step_def)

lemmas op_rows =
  UpdateJob_rows CancelJob_rows ClaimNextJob_rows RenewLease_rows ReleaseClaim_rows
  RequeueExpiredRunning_rows

lemma store_step_rows:
  assumes "table_inv tbl" and "calm h"
  obtains tbl0 new where "store_step pg h tbl = tbl0 @ new" and "list_all2 row_step tbl tbl0"
proof -
  obtain c op where h: "h = (c, op)" by fastforce
  have "(\<exists>new. store_step pg h tbl = tbl @ new) \<or> list_all2 row_step tbl (store_step pg h tbl)"
    using assms CreateJob_extends unfolding h calm_def by (cases op) (auto intro: op_rows)
  then show ?thesis
    using that [of tbl] that [of "store_step pg h tbl" "[]"] by (auto simp: list.rel_refl)
qed

lemma table_inv_calm_step: "table_inv tbl \<Longrightarrow> calm h \<Longrightarrow> table_inv (store_step pg h tbl)"
proof -
  assume inv: "table_inv tbl" and "calm h"
  obtain c op where h: "h = (c, op)" by fastforce
  show ?thesis
    using inv \<open>calm h\<close> unfolding h calm_def
    by (cases op)
      (auto intro: table_inv_CreateJob table_inv_rowwise [OF row_step_identity] op_rows)
qed

lemma table_inv_calm_run:
  "table_inv tbl \<Longrightarrow> \<forall>h \<in> set hs. calm h \<Longrightarrow> table_inv (fold (store_step pg) hs tbl)"
  by (rule fold_invariant) (auto intro: table_inv_calm_step)

text \<open>
  Updates keep identities whatever happened between the statements, so the invariant survives
  interleaving.
\<close>

lemma map_update_identity:
  "(\<And>r. same_identity r (f r)) \<Longrightarrow> list_all2 same_identity tbl (map (\<lambda>r. if p r then f r else r) tbl)"
  by (rule list_all2_map_update) simp_all

lemma UpdateJob_cases:
  "snd (UpdateJob pg c job tbl) \<in> {tbl, c_between c tbl,
     map (\<lambda>r. if update_hit job r then update_set pg c job r else r) (c_between c tbl)}"
  by (cases "c_fault2 c") (simp_all add: UpdateJob_def Let_def split: sum.split)

lemma CancelJob_cases:
  "snd (CancelJob pg c i tbl) \<in> {tbl, c_between c tbl,
     map (\<lambda>r. if row_id r = i
               then r\<lparr>row_state := JobStateDead, row_updated_at := stored pg (c_now c)\<rparr> else r)
       (c_between c tbl)}"
  by (cases "c_fault2 c") (simp_all add: CancelJob_def Let_def split: sum.split)

lemma table_inv_map_update:
  "table_inv tbl \<Longrightarrow> (\<And>r. same_identity r (f r)) \<Longrightarrow> table_inv (map (\<lambda>r. if p r then f r else r) tbl)"
  by (rule table_inv_rowwise [OF map_update_identity])

lemma table_inv_interleaved_step:
  assumes "table_inv tbl" and "interleaved pg h"
  shows "table_inv (store_step pg h tbl)"
proof -
  obtain c op where h: "h = (c, op)" by fastforce
  have between: "table_inv (c_between c tbl)"
    using assms by (auto simp: h interleaved_def intro: table_inv_calm_run)
  show ?thesis
  proof (cases op)
    case (OpUpdate job)
    then show ?thesis
      using UpdateJob_cases [of pg c job tbl] table_inv_map_update [OF between same_identity_sets(1)]
        assms(1) between by (auto simp only: h store_step.simps)
  next
    case (OpCancel i)
    then show ?thesis
      using CancelJob_cases [of pg c i tbl] table_inv_map_update [OF between, of _ "\<lambda>r. row_id r = i"]
        assms(1) between by (auto simp: h same_identity_def)
  qed (use assms(1) in \<open>auto simp: h intro: table_inv_CreateJob table_inv_rowwise [OF row_step_identity] op_rows\<close>)
qed

lemma calm_run_rows:
  assumes "table_inv tbl" and "\<forall>h \<in> set hs. calm h"
  shows "\<exists>tbl0 new. fold (store_step pg) hs tbl = tbl0 @ new \<and> list_all2 (rtranclp row_step) tbl tbl0"
  using assms
proof (induction hs rule: rev_induct)
  case Nil
  have "list_all2 (rtranclp row_step) tbl tbl" by (rule list.rel_refl) simp
  then show ?case by (intro exI [of _ tbl] exI [of _ "[]"]) simp
next
  case (snoc h hs)
  then obtain tbl0 new where run: "fold (store_step pg) hs tbl = tbl0 @ new"
    and all: "list_all2 (rtranclp row_step) tbl tbl0"
    by auto
  have "table_inv (tbl0 @ new)"
    using snoc.prems table_inv_calm_run [of tbl hs pg] by (simp add: run)
  then obtain tbl1 new' where step: "store_step pg h (tbl0 @ new) = tbl1 @ new'"
    and rows: "list_all2 row_step (tbl0 @ new) tbl1"
    using snoc.prems by (elim store_step_rows) auto
  from rows obtain t n where tn: "tbl1 = t @ n" and "list_all2 row_step tbl0 t"
    by (auto simp: list_all2_append1)
  then have "list_all2 (rtranclp row_step) tbl t"
    using all by (auto intro: list_all2_trans [where ?P1.0 = "rtranclp row_step" and ?P2.0 = row_step])
  then show ?case
    using step tn by (auto simp: run)
qed

section \<open>Claims\<close>

lemma sort_key_eq_Nil: "sort_key f xs = [] \<longleftrightarrow> xs = []"
  by (metis length_0_conv length_sort)

lemma sort_key_hd_least:
  "sort_key f xs = x # ys \<Longrightarrow> x \<in> set xs \<and> (\<forall>y \<in> set xs. f x \<le> f y)"
proof -
  assume x: "sort_key f xs = x # ys"
  have "sorted (map f (x # ys))" and "set xs = set (x # ys)"
    using sorted_sort_key [of f xs] set_sort [of f xs] by (simp_all only: x)
  then show ?thesis by auto
qed

lemma select_claim_Cons:
  assumes "select_claim c tbl = r # rs"
  shows "r \<in> set tbl" "claimable c r"
    "\<And>q. q \<in> set tbl \<Longrightarrow> claimable c q \<Longrightarrow>
       nulls_last (row_scheduled_at r) \<le> nulls_last (row_scheduled_at q)"
proof -
  obtain ys where "sort_key (\<lambda>r. nulls_last (row_scheduled_at r)) (filter (claimable c) tbl) = r # ys"
    using assms
    by (cases "sort_key (\<lambda>r. nulls_last (row_scheduled_at r)) (filter (claimable c) tbl)")
      (auto simp: select_claim_def)
  from sort_key_hd_least [OF this] show "r \<in> set tbl" "claimable c r"
    "\<And>q. q \<in> set tbl \<Longrightarrow> claimable c q \<Longrightarrow>
       nulls_last (row_scheduled_at r) \<le> nulls_last (row_scheduled_at q)"
    by auto
qed

lemma select_claim_Nil: "select_claim c tbl = [] \<longleftrightarrow> (\<forall>r \<in> set tbl. \<not> claimable c r)"
  by (simp add: select_claim_def sort_key_eq_Nil filter_empty_conv)

text \<open>The row a successful claim took, and the table it leaves.\<close>

lemma ClaimNextJob_Inr:
  assumes "ClaimNextJob pg c d tbl = (Inr job, tbl')"
  obtains r tok where "newLeaseToken c = Inr tok" "r \<in> set tbl" "claimable c r"
    "\<forall>q \<in> set tbl. claimable c q \<longrightarrow> nulls_last (row_scheduled_at r) \<le> nulls_last (row_scheduled_at q)"
    "scanJob pg (claim_set pg c d tok r) = Inr job"
    "tbl' = map (\<lambda>q. if row_id q = row_id r then claim_set pg c d tok q else q) tbl"
proof -
  obtain tok where tok: "newLeaseToken c = Inr tok"
    using assms by (cases "newLeaseToken c") (simp_all add: ClaimNextJob_def)
  have fault: "c_fault c = None"
    using assms tok by (cases "c_fault c") (simp_all add: ClaimNextJob_def)
  obtain r rs where r: "select_claim c tbl = r # rs"
    using assms tok fault by (cases "select_claim c tbl") (simp_all add: ClaimNextJob_def)
  show ?thesis
  proof (rule that [OF tok select_claim_Cons(1,2) [OF r]])
    show "\<forall>q \<in> set tbl. claimable c q \<longrightarrow> nulls_last (row_scheduled_at r) \<le> nulls_last (row_scheduled_at q)"
      using select_claim_Cons(3) [OF r] by blast
  qed (use assms tok fault r in \<open>simp_all add: ClaimNextJob_def\<close>)
qed

section \<open>One row at a time\<close>

definition lookup_row :: "string \<Rightarrow> table \<Rightarrow> row option" where
  "lookup_row i tbl = find (\<lambda>r. row_id r = i) tbl"

lemma lookup_row_Some: "lookup_row i tbl = Some r \<Longrightarrow> r \<in> set tbl \<and> row_id r = i"
  unfolding lookup_row_def by (rule find_SomeD)

lemma lookup_row_mem: "table_inv tbl \<Longrightarrow> r \<in> set tbl \<Longrightarrow> lookup_row (row_id r) tbl = Some r"
  unfolding lookup_row_def by (rule find_unique) (simp_all add: table_inv_def)

lemma lookup_row_update:
  assumes "\<And>r. row_id (f r) = row_id r"
  shows "lookup_row i (map (\<lambda>r. if p r then f r else r) tbl) =
    map_option (\<lambda>r. if p r then f r else r) (lookup_row i tbl)"
  using assms by (induction tbl) (auto simp: lookup_row_def)

text \<open>An update that hits at most the row with one id.\<close>

lemma lookup_row_update_at:
  assumes "\<And>r. row_id (f r) = row_id r" and "\<And>r. p r \<Longrightarrow> row_id r = k" and "lookup_row k tbl = Some r" and "p r"
  shows "lookup_row i (map (\<lambda>r. if p r then f r else r) tbl) = (if i = k then Some (f r) else lookup_row i tbl)"
proof (cases "i = k")
  case False
  then have "\<forall>q. lookup_row i tbl = Some q \<longrightarrow> \<not> p q" using assms(2) lookup_row_Some by blast
  then show ?thesis using False unfolding lookup_row_update [of f, OF assms(1)] by (cases "lookup_row i tbl") simp_all
qed (simp add: lookup_row_update [of f, OF assms(1)] assms(3,4))

lemma set_ids [simp]:
  "row_id (update_set pg c job r) = row_id r" "row_id (claim_set pg c d tok r) = row_id r"
  "row_id (requeue_set c r) = row_id r"
  by (simp_all add: update_set_def claim_set_def requeue_set_def)

lemma GetJob_lookup:
  "GetJob pg c i tbl =
     (case c_fault c of Some e \<Rightarrow> Inl (ErrDriver e)
      | None \<Rightarrow> (case lookup_row i tbl of None \<Rightarrow> Inl ErrJobNotFound | Some r \<Rightarrow> scanJob pg r))"
  unfolding GetJob_def query_row_def lookup_row_def by (rule refl)

lemma filter_hit_Nil:
  assumes "table_inv tbl" and "\<And>r. p r \<Longrightarrow> row_id r = i"
  shows "filter p tbl = [] \<longleftrightarrow> (case lookup_row i tbl of None \<Rightarrow> True | Some r \<Rightarrow> \<not> p r)"
proof (cases "lookup_row i tbl")
  case None
  then have "\<forall>r \<in> set tbl. row_id r \<noteq> i" by (auto simp: lookup_row_def find_None_iff)
  then show ?thesis using assms(2) None by (auto simp: filter_empty_conv)
next
  case (Some r)
  then have "r \<in> set tbl" "row_id r = i" by (simp_all add: lookup_row_Some)
  then have "\<forall>q \<in> set tbl. p q \<longrightarrow> q = r"
    using assms(2) table_inv_idD [OF assms(1)] by blast
  then show ?thesis using Some \<open>r \<in> set tbl\<close> by (auto simp: filter_empty_conv)
qed

lemma update_hit_Nil:
  "table_inv tbl \<Longrightarrow> filter (update_hit job) tbl = [] \<longleftrightarrow>
     (case lookup_row (job_ID job) tbl of None \<Rightarrow> True | Some r \<Rightarrow> \<not> update_hit job r)"
  by (rule filter_hit_Nil) (simp_all add: update_hit_def)

lemma holds_lease_Nil:
  "table_inv tbl \<Longrightarrow> filter (holds_lease job) tbl = [] \<longleftrightarrow>
     (case lookup_row (job_ID job) tbl of None \<Rightarrow> True | Some r \<Rightarrow> \<not> holds_lease job r)"
  by (rule filter_hit_Nil) (simp_all add: holds_lease_def)

lemma table_inv_between: "table_inv tbl \<Longrightarrow> interleaved pg (c, op) \<Longrightarrow> table_inv (c_between c tbl)"
  by (auto simp: interleaved_def intro: table_inv_calm_run)

text \<open>The two outcomes of \<open>UpdateJob\<close> once its check has passed and no statement fails.\<close>

lemma UpdateJob_passed:
  assumes "lookup_row (job_ID job) tbl = Some r" "scanJob pg r = Inr existing" "c_fault c = None" "c_fault2 c = None"
    and "CanTransition (row_state r) (job_State job)" and "table_inv (c_between c tbl)"
  shows "UpdateJob pg c job tbl =
    (case lookup_row (job_ID job) (c_between c tbl) of
       None \<Rightarrow> (Inl ErrInvalidTransition, c_between c tbl)
     | Some q \<Rightarrow>
         if update_hit job q
         then (Inr (), map (\<lambda>r. if update_hit job r then update_set pg c job r else r) (c_between c tbl))
         else (Inl ErrInvalidTransition, c_between c tbl))"
proof -
  have "filter (update_hit job) (c_between c tbl) = [] \<longleftrightarrow>
      (case lookup_row (job_ID job) (c_between c tbl) of None \<Rightarrow> True | Some q \<Rightarrow> \<not> update_hit job q)"
    using assms(6) by (rule update_hit_Nil)
  then show ?thesis
    using assms(1-5) scanJob_Inr [OF assms(2)]
    by (cases "lookup_row (job_ID job) (c_between c tbl)")
      (simp_all add: UpdateJob_def GetJob_lookup Let_def update_where_none)
qed

end
