(* ===== verification/Store_Correct.thy ===== *)
theory Store_Correct
  imports Store_Facts
begin

text \<open>
  The properties of the store: what holds of every history of the table, what a worker that lost
  its lease can no longer do, which job a claim takes, what lease recovery does, and where the
  two-statement methods let a terminal state change.
\<close>

section \<open>Histories\<close>



section \<open>Lost races\<close>

definition sample_pg :: pg where
  "sample_pg = \<lparr>scan_null = Inl ''cannot scan NULL into *string'', stored = (\<lambda>t. t - t mod 1000)\<rparr>"

definition sample_row :: row where
  "sample_row = row_of_job sample_pg
     (zero_Job\<lparr>job_ID := ''j1'', job_IdempotencyKey := ''k1'', job_State := JobStateRunning,
               job_LeaseToken := ''t1''\<rparr>)"

lemma sample_row_simps [simp]:
  "row_id sample_row = ''j1''" "row_idempotency_key sample_row = Some ''k1''"
  "row_state sample_row = JobStateRunning" "row_lease_token sample_row = Some ''t1''"
  by (simp_all add: sample_row_def row_of_job_def zero_Job_def nullableString_def)

lemma sample_table_inv [simp]: "table_inv [sample_row]"
  by (simp add: table_inv_def)

lemma quiet_simps [simp]:
  "c_now (quiet t bs) = t" "c_db_now (quiet t bs) = t" "c_rand (quiet t bs) = Some bs"
  "c_locked (quiet t bs) = (\<lambda>_. False)" "c_fault (quiet t bs) = None"
  "c_fault2 (quiet t bs) = None" "c_between (quiet t bs) = id"
  by (simp_all add: quiet_def)

lemma scanJob_readable:
  assumes "row_idempotency_key r \<noteq> None" and "row_lease_token r \<noteq> None"
  obtains job where "scanJob pg r = Inr job"
  using assms by (auto simp: scanJob_def scan_text_def)

lemma CancelJob_quiet:
  assumes "lookup_row i tbl = Some r" "scanJob pg r = Inr job" "CanTransition (row_state r) JobStateDead"
  shows "CancelJob pg (quiet now bs) i tbl =
    (Inr (), map (\<lambda>q. if row_id q = i then q\<lparr>row_state := JobStateDead, row_updated_at := stored pg now\<rparr>
                       else q) tbl)"
  using assms scanJob_Inr [OF assms(2)] by (simp add: CancelJob_def GetJob_lookup)

text \<open>
  C38: The check and the write of \<open>UpdateJob\<close> are separate statements and \<open>CancelJob\<close>
  leaves the lease token in place, so a cancellation that lands between them is undone: both
  calls report success, and the row that was \<open>DEAD\<close> ends \<open>COMPLETED\<close>.
\<close>

theorem cancelled_job_completes:
  assumes "table_inv tbl" and "lookup_row (job_ID job) tbl = Some r"
    and "row_state r = JobStateRunning" and "row_idempotency_key r \<noteq> None"
    and "row_lease_token r = Some (job_LeaseToken job)" and "job_State job = JobStateCompleted"
    and "c_fault c = None" and "c_fault2 c = None"
    and "c_between c = (\<lambda>t. snd (CancelJob pg (quiet now bs) (job_ID job) t))"
  shows "fst (CancelJob pg (quiet now bs) (job_ID job) tbl) = Inr () \<and>
    map_option row_state (lookup_row (job_ID job) (c_between c tbl)) = Some JobStateDead \<and>
    fst (UpdateJob pg c job tbl) = Inr () \<and>
    map_option row_state (lookup_row (job_ID job) (snd (UpdateJob pg c job tbl))) = Some JobStateCompleted"
proof -
  obtain existing where ex: "scanJob pg r = Inr existing"
    using scanJob_readable assms(4,5) by (metis option.distinct(1))
  have move: "CanTransition (row_state r) JobStateDead" "CanTransition (row_state r) JobStateCompleted"
    using assms(3) by (simp_all add: CanTransition_def)
  note cancel = CancelJob_quiet [OF assms(2) ex move(1), of now bs]
  have inv: "table_inv (c_between c tbl)"
    unfolding assms(9) cancel snd_conv
    by (rule table_inv_map_update [OF assms(1)]) (simp add: same_identity_def)
  have id: "row_id r = job_ID job" using lookup_row_Some [OF assms(2)] by simp
  have look: "lookup_row (job_ID job) (c_between c tbl) =
      Some (r\<lparr>row_state := JobStateDead, row_updated_at := stored pg now\<rparr>)"
    unfolding assms(9) cancel snd_conv by (subst lookup_row_update) (simp_all add: assms(2) id)
  have hit: "update_hit job (r\<lparr>row_state := JobStateDead, row_updated_at := stored pg now\<rparr>)"
    using assms(5) id by (simp add: update_hit_def)
  have "CanTransition (row_state r) (job_State job)" using move assms(6) by simp
  from UpdateJob_passed [OF assms(2) ex assms(7,8) this inv] show ?thesis
    using cancel look hit assms(6) by (simp add: lookup_row_update) (simp add: update_set_def)
qed

theorem cancelled_job_completes_witness:
  "let job = zero_Job\<lparr>job_ID := ''j1'', job_State := JobStateCompleted, job_LeaseToken := ''t1''\<rparr>;
       c = (quiet 7 [])\<lparr>c_between := (\<lambda>t. snd (CancelJob sample_pg (quiet 5 []) (job_ID job) t))\<rparr>
   in fst (UpdateJob sample_pg c job [sample_row]) = Inr () \<and>
      map_option row_state (lookup_row ''j1'' (snd (UpdateJob sample_pg c job [sample_row])))
        = Some JobStateCompleted"
proof -
  let ?job = "zero_Job\<lparr>job_ID := ''j1'', job_State := JobStateCompleted, job_LeaseToken := ''t1''\<rparr>"
  let ?c = "(quiet 7 [])\<lparr>c_between := (\<lambda>t. snd (CancelJob sample_pg (quiet 5 []) (job_ID ?job) t))\<rparr>"
  have "lookup_row (job_ID ?job) [sample_row] = Some sample_row" by (simp add: lookup_row_def)
  from cancelled_job_completes [OF sample_table_inv this, where c = ?c and pg = sample_pg and now = 5 and bs = "[]"]
  show ?thesis by (simp add: Let_def)
qed

lemma calm_interleaved [simp]: "calm h \<Longrightarrow> interleaved pg h"
  unfolding calm_def interleaved_def by (rule exI [of _ "[]"]) auto



section \<open>Lease fencing\<close>



section \<open>Claims\<close>

lemma claim_row:
  assumes "table_inv tbl" and "ClaimNextJob pg c d tbl = (Inr job, tbl')"
  shows "\<exists>r \<in> set tbl. claimable c r \<and>
    (\<forall>q \<in> set tbl. claimable c q \<longrightarrow> nulls_last (row_scheduled_at r) \<le> nulls_last (row_scheduled_at q)) \<and>
    job_ID job = row_id r \<and> job_Task job = row_task r \<and> job_State job = JobStateRunning \<and>
    job_Attempt job = row_attempt r + 1 \<and> newLeaseToken c = Inr (job_LeaseToken job) \<and>
    job_LeaseExpiresAt job = Some (stored pg (c_now c + d)) \<and>
    (\<forall>i. lookup_row i tbl' =
       (if i = row_id r then Some (claim_set pg c d (job_LeaseToken job) r) else lookup_row i tbl))"
proof -
  obtain r tok where r: "newLeaseToken c = Inr tok" "r \<in> set tbl" "claimable c r"
    "\<forall>q \<in> set tbl. claimable c q \<longrightarrow> nulls_last (row_scheduled_at r) \<le> nulls_last (row_scheduled_at q)"
    "scanJob pg (claim_set pg c d tok r) = Inr job"
    "tbl' = map (\<lambda>q. if row_id q = row_id r then claim_set pg c d tok q else q) tbl"
    using assms(2) by (rule ClaimNextJob_Inr)
  have job: "job_LeaseToken job = tok" "job_LeaseExpiresAt job = Some (stored pg (c_now c + d))"
    "job_ID job = row_id r" "job_Task job = row_task r" "job_State job = JobStateRunning"
    "job_Attempt job = row_attempt r + 1"
    using scanJob_Inr [OF r(5)] by (simp_all add: claim_set_def)
  have look: "lookup_row i tbl' = map_option (\<lambda>q. if row_id q = row_id r then claim_set pg c d tok q else q) (lookup_row i tbl)" for i
    unfolding r(6) by (rule lookup_row_update) simp
  have "lookup_row i tbl' =
      (if i = row_id r then Some (claim_set pg c d tok r) else lookup_row i tbl)" for i
  proof (cases "i = row_id r")
    case True
    then show ?thesis using lookup_row_mem [OF assms(1) r(2)] by (simp add: look)
  next
    case False
    then have "row_id q \<noteq> row_id r" if "lookup_row i tbl = Some q" for q
      using lookup_row_Some [OF that] by simp
    then show ?thesis using False by (cases "lookup_row i tbl") (simp_all add: look)
  qed
  then show ?thesis using r(1,3,4) job by (intro bexI [OF _ r(2)]) simp
qed

text \<open>
  A successful claim takes a due \<open>PENDING\<close> row that no other transaction has locked,
  and among those one with the earliest \<open>scheduled_at\<close> (rows without one last); it hands
  out the job as \<open>RUNNING\<close>, with one attempt more, the fresh token and the lease end, and
  changes no other row.
\<close>

theorem claim_takes_earliest:
  assumes "table_inv tbl" and "ClaimNextJob pg c d tbl = (Inr job, tbl')"
  shows "\<exists>r \<in> set tbl. claimable c r \<and>
    (\<forall>q \<in> set tbl. claimable c q \<longrightarrow> nulls_last (row_scheduled_at r) \<le> nulls_last (row_scheduled_at q)) \<and>
    job_ID job = row_id r \<and> job_Task job = row_task r \<and> job_State job = JobStateRunning \<and>
    job_Attempt job = row_attempt r + 1 \<and> newLeaseToken c = Inr (job_LeaseToken job) \<and>
    job_LeaseExpiresAt job = Some (stored pg (c_now c + d)) \<and>
    (\<forall>i. lookup_row i tbl' =
       (if i = row_id r then Some (claim_set pg c d (job_LeaseToken job) r) else lookup_row i tbl))"
  using assms by (rule claim_row)

definition sample_pending :: row where
  "sample_pending = sample_row\<lparr>row_state := JobStatePending, row_lease_token := None,
     row_lease_expires_at := None, row_scheduled_at := Some 3000\<rparr>"

lemma sample_pending_inv [simp]: "table_inv [sample_pending]"
  by (simp add: table_inv_def sample_pending_def)

lemma sample_claim:
  "\<exists>job tbl'. ClaimNextJob sample_pg (quiet 9000 [7]) 5000 [sample_pending] = (Inr job, tbl')"
  by (simp add: ClaimNextJob_def newLeaseToken_def select_claim_def claimable_def sample_pending_def
      scanJob_def claim_set_def)

theorem claim_takes_earliest_witness:
  "\<exists>job tbl'. ClaimNextJob sample_pg (quiet 9000 [7]) 5000 [sample_pending] = (Inr job, tbl') \<and>
     job_ID job = ''j1'' \<and> job_LeaseToken job = hex_EncodeToString [7] \<and> job_LeaseExpiresAt job = Some 14000"
proof -
  obtain job tbl' where claim: "ClaimNextJob sample_pg (quiet 9000 [7]) 5000 [sample_pending] = (Inr job, tbl')"
    using sample_claim by blast
  from claim_takes_earliest [OF sample_pending_inv this] show ?thesis
    using claim by (auto simp: sample_pending_def newLeaseToken_def sample_pg_def)
qed

text \<open>The identifiers handed out by the claims of a history.\<close>

fun claimed :: "pg \<Rightarrow> call \<times> store_op \<Rightarrow> table \<Rightarrow> string list" where
  "claimed pg (c, OpClaim d) tbl =
     (case fst (ClaimNextJob pg c d tbl) of Inr job \<Rightarrow> [job_ID job] | Inl e \<Rightarrow> [])"
| "claimed pg h tbl = []"

fun claims :: "pg \<Rightarrow> (call \<times> store_op) list \<Rightarrow> table \<Rightarrow> string list" where
  "claims pg [] tbl = []"
| "claims pg (h # hs) tbl = claimed pg h tbl @ claims pg hs (store_step pg h tbl)"

fun keeps_claims :: "store_op \<Rightarrow> bool" where
  "keeps_claims (OpUpdate job) \<longleftrightarrow> job_State job \<noteq> JobStatePending"
| "keeps_claims (OpRelease job reason) \<longleftrightarrow> False"
| "keeps_claims (OpRequeue n) \<longleftrightarrow> False"
| "keeps_claims op \<longleftrightarrow> True"

definition taken :: "string \<Rightarrow> table \<Rightarrow> bool" where
  "taken i tbl \<longleftrightarrow> (\<exists>r. lookup_row i tbl = Some r \<and> row_state r \<noteq> JobStatePending)"

lemma lookup_row_append: "lookup_row i tbl = Some r \<Longrightarrow> lookup_row i (tbl @ new) = Some r"
  by (induction tbl) (auto simp: lookup_row_def)

lemma taken_map_update:
  assumes "taken i tbl" and "\<And>r. row_id (f r) = row_id r"
    and "\<And>r. row_state r \<noteq> JobStatePending \<Longrightarrow> row_state (f r) \<noteq> JobStatePending"
  shows "taken i (map (\<lambda>r. if p r then f r else r) tbl)"
proof -
  obtain r where r: "lookup_row i tbl = Some r" "row_state r \<noteq> JobStatePending"
    using assms(1) by (auto simp: taken_def)
  have "lookup_row i (map (\<lambda>r. if p r then f r else r) tbl) = Some (if p r then f r else r)"
    by (subst lookup_row_update [OF assms(2)]) (simp add: r(1))
  then show ?thesis using r(2) assms(3) by (simp add: taken_def)
qed

lemma ClaimNextJob_cases:
  "snd (ClaimNextJob pg c d tbl) = tbl \<or> (\<exists>r \<in> set tbl. \<exists>tok. claimable c r \<and>
     fst (ClaimNextJob pg c d tbl) = scanJob pg (claim_set pg c d tok r) \<and>
     snd (ClaimNextJob pg c d tbl) = map (\<lambda>q. if row_id q = row_id r then claim_set pg c d tok q else q) tbl)"
proof (cases "select_claim c tbl")
  case Nil
  then show ?thesis
    by (cases "c_fault c") (simp_all add: ClaimNextJob_def split: sum.split)
next
  case (Cons r rs)
  then show ?thesis
    using select_claim_Cons(1,2) [OF Cons]
    by (cases "newLeaseToken c"; cases "c_fault c") (auto simp: ClaimNextJob_def)
qed

lemma RenewLease_cases:
  "snd (RenewLease pg c job d tbl) = tbl \<or> snd (RenewLease pg c job d tbl) =
     map (\<lambda>r. if holds_lease job r
               then r\<lparr>row_lease_expires_at := Some (stored pg (c_now c + d)), row_updated_at := c_db_now c\<rparr>
               else r) tbl"
  by (simp add: RenewLease_def split: option.split)

lemma taken_step:
  assumes "taken i tbl" and "keeps_claims op" and "c_between c = id"
  shows "taken i (store_step pg (c, op) tbl)"
proof (cases op)
  case (OpCreate job)
  obtain new where "snd (CreateJob pg c job tbl) = tbl @ new" using CreateJob_extends by blast
  then show ?thesis using assms(1) by (auto simp: OpCreate taken_def intro: lookup_row_append)
next
  case (OpUpdate job)
  have "taken i (map (\<lambda>r. if update_hit job r then update_set pg c job r else r) tbl)"
    using assms(1,2) by (intro taken_map_update) (simp_all add: OpUpdate update_set_def)
  then show ?thesis
    using UpdateJob_cases [of pg c job tbl] assms(1,3) by (auto simp: OpUpdate)
next
  case (OpCancel j)
  have "taken i (map (\<lambda>r. if row_id r = j
      then r\<lparr>row_state := JobStateDead, row_updated_at := stored pg (c_now c)\<rparr> else r) tbl)"
    using assms(1) by (rule taken_map_update) simp_all
  then show ?thesis
    using CancelJob_cases [of pg c j tbl] assms(1,3) by (auto simp: OpCancel)
next
  case (OpClaim d)
  have "taken i (map (\<lambda>q. if row_id q = j then claim_set pg c d tok q else q) tbl)" for j tok
    using assms(1) by (rule taken_map_update) (simp_all add: claim_set_def)
  then show ?thesis
    using ClaimNextJob_cases [of pg c d tbl] assms(1) by (auto simp: OpClaim)
next
  case (OpRenew job d)
  have "taken i (map (\<lambda>r. if holds_lease job r
      then r\<lparr>row_lease_expires_at := Some (stored pg (c_now c + d)), row_updated_at := c_db_now c\<rparr>
      else r) tbl)"
    using assms(1) by (rule taken_map_update) simp_all
  then show ?thesis
    using RenewLease_cases [of pg c job d tbl] assms(1) by (auto simp: OpRenew)
qed (use assms(2) in simp_all)

lemma claimed_taken:
  assumes "table_inv tbl" and "i \<in> set (claimed pg (c, op) tbl)"
  shows "\<not> taken i tbl \<and> taken i (store_step pg (c, op) tbl) \<and> claimed pg (c, op) tbl = [i]"
proof -
  obtain d job tbl' where op: "op = OpClaim d" and claim: "ClaimNextJob pg c d tbl = (Inr job, tbl')"
    and i: "i = job_ID job"
    using assms(2) by (cases op) (auto split: sum.splits simp: prod_eq_iff dest: sym)
  from claim_row [OF assms(1) claim] obtain r where r: "r \<in> set tbl" "claimable c r" "job_ID job = row_id r"
    and "\<forall>i. lookup_row i tbl' = (if i = row_id r then Some (claim_set pg c d (job_LeaseToken job) r) else lookup_row i tbl)"
    by blast
  then show ?thesis
    using lookup_row_mem [OF assms(1) r(1)] claim
    by (auto simp: op i taken_def claimable_def claim_set_def)
qed

lemma claims_not_taken:
  assumes "table_inv tbl" and "\<forall>h \<in> set hs. calm h \<and> keeps_claims (snd h)" and "taken i tbl"
  shows "i \<notin> set (claims pg hs tbl)"
  using assms
proof (induction hs arbitrary: tbl)
  case (Cons h hs)
  obtain c op where h: "h = (c, op)" by fastforce
  have "taken i (store_step pg h tbl)" and "table_inv (store_step pg h tbl)"
    using Cons.prems by (auto simp: h calm_def intro: taken_step table_inv_calm_step)
  moreover have "i \<notin> set (claimed pg h tbl)"
    using claimed_taken [OF Cons.prems(1)] Cons.prems(3) unfolding h by blast
  ultimately show ?case using Cons.IH Cons.prems(2) by simp
qed simp



section \<open>Lease recovery\<close>

lemma distinct_rows: "table_inv tbl \<Longrightarrow> distinct tbl"
  by (simp add: table_inv_def distinct_map)

lemma select_expired_props:
  assumes "table_inv tbl"
  shows "set (select_expired c limit tbl) \<subseteq> {r \<in> set tbl. lease_expired c r}"
    and "distinct (select_expired c limit tbl)"
    and "length (select_expired c limit tbl) = min (nat limit) (length (filter (lease_expired c) tbl))"
    and "length (filter (lease_expired c) tbl) \<le> nat limit \<Longrightarrow>
      set (select_expired c limit tbl) = {r \<in> set tbl. lease_expired c r}"
proof -
  show "set (select_expired c limit tbl) \<subseteq> {r \<in> set tbl. lease_expired c r}"
    using select_expired_mem [of _ c limit tbl] by blast
  show "distinct (select_expired c limit tbl)"
    unfolding select_expired_def
    by (intro distinct_take) (simp add: distinct_sort distinct_filter distinct_rows [OF assms])
  show "length (select_expired c limit tbl) = min (nat limit) (length (filter (lease_expired c) tbl))"
    by (simp add: select_expired_def min.commute)
  assume "length (filter (lease_expired c) tbl) \<le> nat limit"
  then show "set (select_expired c limit tbl) = {r \<in> set tbl. lease_expired c r}"
    by (simp add: select_expired_def)
qed

lemma selected_by_id:
  assumes "table_inv tbl" and "set sel \<subseteq> set tbl" and "r \<in> set tbl"
  shows "row_id r \<in> set (map row_id sel) \<longleftrightarrow> r \<in> set sel"
  using assms by (auto dest: table_inv_idD [OF assms(1)])

lemma RequeueExpiredRunning_eval:
  assumes "table_inv tbl" and "c_fault c = None" and "limit > 0"
  shows "RequeueExpiredRunning c limit tbl =
      (Inr (min limit (int (length (filter (lease_expired c) tbl)))),
       map (\<lambda>r. if r \<in> set (select_expired c limit tbl) then requeue_set c r else r) tbl)"
proof -
  let ?sel = "select_expired c limit tbl"
  note sel = select_expired_props [OF assms(1), of c limit]
  have sub: "set ?sel \<subseteq> set tbl" using sel(1) by blast
  have ids: "row_id r \<in> set (map row_id ?sel) \<longleftrightarrow> r \<in> set ?sel" if "r \<in> set tbl" for r
    by (rule selected_by_id [OF assms(1) sub that])
  have "filter (\<lambda>r. row_id r \<in> set (map row_id ?sel)) tbl = filter (\<lambda>r. r \<in> set ?sel) tbl"
    using ids by (intro filter_cong) simp_all
  moreover have "length (filter (\<lambda>r. r \<in> set ?sel) tbl) = length ?sel"
  proof -
    have "set (filter (\<lambda>r. r \<in> set ?sel) tbl) = set ?sel" using sub by auto
    then show ?thesis
      using distinct_card [OF sel(2)] distinct_card [OF distinct_filter [OF distinct_rows [OF assms(1)]]]
      by metis
  qed
  moreover have "map (\<lambda>r. if row_id r \<in> set (map row_id ?sel) then requeue_set c r else r) tbl =
      map (\<lambda>r. if r \<in> set ?sel then requeue_set c r else r) tbl"
    using ids by (intro map_cong) simp_all
  ultimately show "RequeueExpiredRunning c limit tbl =
      (Inr (min limit (int (length (filter (lease_expired c) tbl)))),
       map (\<lambda>r. if r \<in> set ?sel then requeue_set c r else r) tbl)"
    using assms(2,3) sel(3) by (simp add: RequeueExpiredRunning_def Let_def)
qed

text \<open>A row whose lease has not run out is untouched by the recovery.\<close>

lemma requeue_keeps:
  assumes "table_inv tbl" and "r \<in> set tbl" and "\<not> lease_expired c r"
  shows "r \<in> set (snd (RequeueExpiredRunning c limit tbl))"
proof (cases "c_fault c = None \<and> limit > 0")
  case True
  have "r \<notin> set (select_expired c limit tbl)"
    using select_expired_props(1) [OF assms(1), of c limit] assms(3) by auto
  then show ?thesis using True assms(2)
    by (auto simp: RequeueExpiredRunning_eval [OF assms(1)] image_iff intro!: bexI [of _ r])
qed (use assms(2) in \<open>auto simp: RequeueExpiredRunning_def split: option.split\<close>)

text \<open>
  C26: Lease recovery takes at most \<open>limit\<close> expired \<open>RUNNING\<close> rows, reports exactly how
  many, and rewrites just those: to \<open>DEAD\<close> when the attempts have used up a positive
  \<open>MaxRetries\<close>, to \<open>PENDING\<close> and due now otherwise, always without lease. When no
  more than \<open>limit\<close> rows had expired, none is left.
\<close>

theorem requeue_expired:
  assumes "table_inv tbl" and "c_fault c = None" and "limit > 0"
  shows "\<exists>tbl'. RequeueExpiredRunning c limit tbl =
      (Inr (min limit (int (length (filter (lease_expired c) tbl)))), tbl') \<and>
    tbl' = map (\<lambda>r. if r \<in> set (select_expired c limit tbl) then requeue_set c r else r) tbl \<and>
    (\<forall>r \<in> set (select_expired c limit tbl). lease_expired c r \<and>
       row_state (requeue_set c r) = (if retries_exhausted r then JobStateDead else JobStatePending) \<and>
       row_lease_token (requeue_set c r) = None) \<and>
    (int (length (filter (lease_expired c) tbl)) \<le> limit \<longrightarrow> (\<forall>q \<in> set tbl'. \<not> lease_expired c q))"
proof -
  let ?sel = "select_expired c limit tbl"
  note sel = select_expired_props [OF assms(1), of c limit]
  have none: "\<not> lease_expired c q"
    if "int (length (filter (lease_expired c) tbl)) \<le> limit"
      and "q \<in> set (map (\<lambda>r. if r \<in> set ?sel then requeue_set c r else r) tbl)" for q
  proof -
    have "set ?sel = {r \<in> set tbl. lease_expired c r}" using sel(4) that(1) by linarith
    moreover have "\<not> lease_expired c (requeue_set c r)" for r
      by (simp add: lease_expired_def requeue_set_def)
    ultimately show ?thesis using that(2) by auto
  qed
  have "\<forall>r \<in> set ?sel. lease_expired c r \<and>
      row_state (requeue_set c r) = (if retries_exhausted r then JobStateDead else JobStatePending) \<and>
      row_lease_token (requeue_set c r) = None"
    using sel(1) by (auto simp: requeue_set_def)
  then show ?thesis
    by (intro exI conjI) (rule RequeueExpiredRunning_eval [OF assms], rule refl, assumption, use none in blast)
qed

theorem requeue_expired_witness:
  "let r = sample_row\<lparr>row_lease_expires_at := Some 5000\<rparr>
   in fst (RequeueExpiredRunning (quiet 6000 []) 100 [r]) = Inr 1"
proof -
  let ?r = "sample_row\<lparr>row_lease_expires_at := Some 5000\<rparr>"
  have "table_inv [?r]" by (simp add: table_inv_def)
  from requeue_expired [OF this, of "quiet 6000 []" 100]
  show ?thesis by (auto simp: lease_expired_def Let_def)
qed

section \<open>Reading back\<close>

text \<open>The job as the columns keep it: times as a timestamp column holds them, the two defaults of \<open>CreateJob\<close> filled in.\<close>

definition kept :: "pg \<Rightarrow> instant \<Rightarrow> Job \<Rightarrow> Job" where
  "kept pg now job = job\<lparr>
     job_ScheduledAt := map_option (stored pg) (job_ScheduledAt job),
     job_StartedAt := map_option (stored pg) (job_StartedAt job),
     job_LeaseExpiresAt := map_option (stored pg) (job_LeaseExpiresAt job),
     job_CompletedAt := map_option (stored pg) (job_CompletedAt job),
     job_CreatedAt := stored pg (if job_CreatedAt job = 0 then now else job_CreatedAt job),
     job_UpdatedAt := stored pg now\<rparr>"

lemma CreateJob_Inr:
  assumes "CreateJob pg c job tbl = (Inr (), tbl')"
  obtains r where "insert_row r tbl = Inr tbl'"
    "r = row_of_job pg ((if job_CreatedAt job = 0 then job\<lparr>job_CreatedAt := c_now c\<rparr> else job)
           \<lparr>job_UpdatedAt := c_now c\<rparr>)"
  using assms by (auto simp: CreateJob_def Let_def split: option.splits sum.splits if_splits)

lemma CreateJob_lookup:
  assumes "CreateJob pg c job tbl = (Inr (), tbl')"
  obtains r where "tbl' = tbl @ [r]" "lookup_row (job_ID job) tbl' = Some r"
    "row_idempotency_key r = nullableString (job_IdempotencyKey job)"
    "row_lease_token r = nullableString (job_LeaseToken job)"
    "job_IdempotencyKey job \<noteq> '''' \<and> job_LeaseToken job \<noteq> '''' \<longrightarrow>
       scanJob pg r = Inr (kept pg (c_now c) job)"
proof -
  define j where "j = (if job_CreatedAt job = 0 then job\<lparr>job_CreatedAt := c_now c\<rparr> else job)\<lparr>job_UpdatedAt := c_now c\<rparr>"
  obtain r where ins: "insert_row r tbl = Inr tbl'" and r: "r = row_of_job pg j"
    using assms by (rule CreateJob_Inr) (simp add: j_def)
  have id: "row_id r = job_ID job" by (simp add: r j_def row_of_job_def)
  have tbl': "tbl' = tbl @ [r]" and "\<forall>q \<in> set tbl. row_id q \<noteq> row_id r"
    using ins by (simp_all add: insert_row_Inr)
  then have "lookup_row (job_ID job) tbl' = Some r"
    by (induction tbl arbitrary: tbl') (simp_all add: lookup_row_def id)
  moreover have "row_idempotency_key r = nullableString (job_IdempotencyKey job)"
    and "row_lease_token r = nullableString (job_LeaseToken job)"
    by (simp_all add: r j_def row_of_job_def)
  moreover have "scanJob pg r = Inr (kept pg (c_now c) job)"
    if "job_IdempotencyKey job \<noteq> ''''" "job_LeaseToken job \<noteq> ''''"
    using that by (simp add: scanJob_def r j_def row_of_job_def nullableString_def kept_def)
  ultimately show ?thesis using that tbl' by blast
qed

text \<open>
  C36: What \<open>CreateJob\<close> wrote, \<open>GetJob\<close> reads back field by field, provided the job has
  both an idempotency key and a lease token. The driver refuses to scan a NULL into a Go
  string, and \<open>nullableString\<close> stores an absent key or token as NULL: a job created without
  one of them (every job the API enqueues, since none has a token yet) cannot be read.
\<close>

theorem created_job_readable_iff:
  assumes "scan_null pg = Inl e" and "CreateJob pg c job tbl = (Inr (), tbl')" and "c_fault c' = None"
  shows "GetJob pg c' (job_ID job) tbl' =
    (if job_IdempotencyKey job \<noteq> '''' \<and> job_LeaseToken job \<noteq> '''' then Inr (kept pg (c_now c) job)
     else Inl (ErrDriver (OtherError e)))"
proof -
  obtain r where "tbl' = tbl @ [r]" and r: "lookup_row (job_ID job) tbl' = Some r"
    "row_idempotency_key r = nullableString (job_IdempotencyKey job)"
    "row_lease_token r = nullableString (job_LeaseToken job)"
    "job_IdempotencyKey job \<noteq> '''' \<and> job_LeaseToken job \<noteq> '''' \<longrightarrow> scanJob pg r = Inr (kept pg (c_now c) job)"
    using assms(2) by (rule CreateJob_lookup)
  have "scanJob pg r = Inl (ErrDriver (OtherError e))"
    if "\<not> (job_IdempotencyKey job \<noteq> '''' \<and> job_LeaseToken job \<noteq> '''')"
    using that assms(1) r(2,3)
    by (cases "job_IdempotencyKey job = ''''") (auto simp: scanJob_def nullableString_def scan_text_def)
  then show ?thesis using r(1,4) assms(3) by (simp add: GetJob_lookup)
qed

theorem created_job_readable_iff_witness:
  "let job = zero_Job\<lparr>job_ID := ''j1'', job_State := JobStatePending\<rparr>;
       tbl' = snd (CreateJob sample_pg (quiet 5000 []) job [])
   in GetJob sample_pg (quiet 6000 []) ''j1'' tbl' =
        Inl (ErrDriver (OtherError ''cannot scan NULL into *string''))"
proof -
  let ?job = "zero_Job\<lparr>job_ID := ''j1'', job_State := JobStatePending\<rparr>"
  have "CreateJob sample_pg (quiet 5000 []) ?job [] =
      (Inr (), snd (CreateJob sample_pg (quiet 5000 []) ?job []))"
    by (simp add: CreateJob_def insert_row_def)
  from created_job_readable_iff [OF _ this, of "''cannot scan NULL into *string''" "quiet 6000 []"]
  show ?thesis by (simp add: sample_pg_def zero_Job_def Let_def)
qed

end
