(* ===== verification/Pool.thy ===== *)
theory Pool
  imports Models "HOL-Library.Multiset"
begin

text \<open>
  The worker pool of \<open>internal/worker/pool.go\<close>: a bounded channel of jobs, one dispatcher
  goroutine, and a semaphore that bounds the running jobs. Each operation is a function on the
  state of the channels and goroutines, and \<open>pool_step\<close> interleaves them in any order. Three
  lists record what was accepted, started and finished; no operation reads them. Lemmas: the
  bounds hold in every reachable state, jobs start in the order they were accepted and none is
  lost or doubled, the pool cannot get stuck, a shutdown with a live context drains the queue,
  and one after a cancelled context abandons it.
\<close>

section \<open>Model\<close>

datatype dispatcher = NotStarted | Receiving | Acquiring Job | Exited

record pool =
  p_QueueSize :: nat
  p_Concurrency :: nat
  p_jobs :: "Job list"
  p_closed :: bool
  p_dispatcher :: dispatcher
  p_semaphore :: nat
  p_running :: "Job list"
  p_ctx_done :: bool
  p_accepted :: "Job list"
  p_started :: "Job list"
  p_finished :: "Job list"

text \<open>\<open>make\<close> panics on a negative capacity.\<close>

definition NewPool :: "int \<Rightarrow> int \<Rightarrow> pool option" where
  "NewPool QueueSize Concurrency =
    (if QueueSize < 0 \<or> Concurrency < 0 then None
     else Some \<lparr>p_QueueSize = nat QueueSize, p_Concurrency = nat Concurrency, p_jobs = [], p_closed = False,
       p_dispatcher = NotStarted, p_semaphore = 0, p_running = [], p_ctx_done = False,
       p_accepted = [], p_started = [], p_finished = []\<rparr>)"

definition Start_pool :: "pool \<Rightarrow> pool" where
  "Start_pool p = p\<lparr>p_dispatcher := Receiving\<rparr>"

text \<open>A send proceeds when the buffer has room, or, unbuffered, when the dispatcher waits to receive.\<close>

definition can_send :: "pool \<Rightarrow> bool" where
  "can_send p \<longleftrightarrow> length (p_jobs p) < p_QueueSize p \<or> p_QueueSize p = 0 \<and> p_dispatcher p = Receiving"

definition send_job :: "Job \<Rightarrow> pool \<Rightarrow> pool" where
  "send_job job p =
    (let p' = p\<lparr>p_accepted := p_accepted p @ [job]\<rparr>
     in if p_QueueSize p = 0 then p'\<lparr>p_dispatcher := Acquiring job\<rparr> else p'\<lparr>p_jobs := p_jobs p @ [job]\<rparr>)"

datatype submit_result = Accepted | Rejected | Blocked | Panic

text \<open>
  \<open>ctx_err\<close>: the caller's context is done on entry; \<open>pick_done\<close>: the select takes the case of
  the context. A send on a closed channel panics.
\<close>

definition Submit :: "bool \<Rightarrow> bool \<Rightarrow> Job \<Rightarrow> pool \<Rightarrow> submit_result \<times> pool" where
  "Submit ctx_err pick_done job p =
    (if ctx_err then (Rejected, p)
     else if pick_done then (Rejected, p)
     else if p_closed p then (Panic, p)
     else if can_send p then (Accepted, send_job job p)
     else (Rejected, p))"

definition SubmitBlocking :: "bool \<Rightarrow> bool \<Rightarrow> Job \<Rightarrow> pool \<Rightarrow> submit_result \<times> pool" where
  "SubmitBlocking ctx_err pick_done job p =
    (if ctx_err then (Rejected, p)
     else if pick_done then (Rejected, p)
     else if p_closed p then (Panic, p)
     else if can_send p then (Accepted, send_job job p)
     else (Blocked, p))"

text \<open>The dispatcher goroutine: receive a job or see the closed channel, or leave on a done context.\<close>

definition dispatcher_receive :: "pool \<Rightarrow> pool option" where
  "dispatcher_receive p =
    (if p_dispatcher p \<noteq> Receiving then None
     else case p_jobs p of
       job # rest \<Rightarrow> Some (p\<lparr>p_jobs := rest, p_dispatcher := Acquiring job\<rparr>)
     | [] \<Rightarrow> if p_closed p then Some (p\<lparr>p_dispatcher := Exited\<rparr>) else None)"

definition dispatcher_cancel :: "pool \<Rightarrow> pool option" where
  "dispatcher_cancel p =
    (if p_dispatcher p = Receiving \<and> p_ctx_done p then Some (p\<lparr>p_dispatcher := Exited\<rparr>) else None)"

text \<open>With a job in hand the dispatcher takes a semaphore slot and starts the worker goroutine.\<close>

definition dispatcher_acquire :: "pool \<Rightarrow> pool option" where
  "dispatcher_acquire p =
    (case p_dispatcher p of
       Acquiring job \<Rightarrow>
         if p_semaphore p < p_Concurrency p
         then Some (p\<lparr>p_semaphore := p_semaphore p + 1, p_running := job # p_running p,
           p_started := p_started p @ [job], p_dispatcher := Receiving\<rparr>)
         else None
     | _ \<Rightarrow> None)"

text \<open>A worker goroutine ends, by return or by a recovered panic, and frees its slot.\<close>

definition worker_finish :: "Job \<Rightarrow> pool \<Rightarrow> pool option" where
  "worker_finish job p =
    (if job \<in> set (p_running p)
     then Some (p\<lparr>p_running := remove1 job (p_running p), p_semaphore := p_semaphore p - 1,
       p_finished := job # p_finished p\<rparr>)
     else None)"

text \<open>\<open>Stop\<close>: close the channel (a second close panics), then wait for the goroutines.\<close>

definition Stop_close :: "pool \<Rightarrow> pool option" where
  "Stop_close p = (if p_closed p then None else Some (p\<lparr>p_closed := True\<rparr>))"

definition wg_done :: "pool \<Rightarrow> bool" where
  "wg_done p \<longleftrightarrow> p_dispatcher p \<in> {NotStarted, Exited} \<and> p_running p = []"

datatype stop_result = StopNil | StopCtxErr | StopWaiting

definition Stop_wait :: "bool \<Rightarrow> pool \<Rightarrow> stop_result" where
  "Stop_wait ctx_done p = (if wg_done p then StopNil else if ctx_done then StopCtxErr else StopWaiting)"

section \<open>Runs\<close>

inductive pool_step :: "pool \<Rightarrow> pool \<Rightarrow> bool" where
  start: "p_dispatcher p = NotStarted \<Longrightarrow> pool_step p (Start_pool p)"
| submit: "Submit ctx_err pick job p = (r, p') \<Longrightarrow> r \<noteq> Panic \<Longrightarrow> pool_step p p'"
| submit_blocking: "SubmitBlocking ctx_err pick job p = (r, p') \<Longrightarrow> r \<noteq> Panic \<Longrightarrow> pool_step p p'"
| receive: "dispatcher_receive p = Some p' \<Longrightarrow> pool_step p p'"
| cancel: "dispatcher_cancel p = Some p' \<Longrightarrow> pool_step p p'"
| acquire: "dispatcher_acquire p = Some p' \<Longrightarrow> pool_step p p'"
| finish: "worker_finish job p = Some p' \<Longrightarrow> pool_step p p'"
| close: "Stop_close p = Some p' \<Longrightarrow> pool_step p p'"
| ctx: "pool_step p (p\<lparr>p_ctx_done := True\<rparr>)"

inductive reachable :: "pool \<Rightarrow> bool" where
  new: "NewPool qs conc = Some p \<Longrightarrow> reachable p"
| step: "reachable p \<Longrightarrow> pool_step p p' \<Longrightarrow> reachable p'"

fun in_hand :: "dispatcher \<Rightarrow> Job list" where
  "in_hand (Acquiring job) = [job]"
| "in_hand _ = []"

definition pool_inv :: "pool \<Rightarrow> bool" where
  "pool_inv p \<longleftrightarrow> length (p_jobs p) \<le> p_QueueSize p \<and> p_semaphore p = length (p_running p) \<and>
     length (p_running p) \<le> p_Concurrency p \<and>
     p_accepted p = p_started p @ in_hand (p_dispatcher p) @ p_jobs p \<and>
     mset (p_started p) = mset (p_running p) + mset (p_finished p)"

lemmas pool_op_defs = Start_pool_def Submit_def SubmitBlocking_def send_job_def can_send_def dispatcher_receive_def
  dispatcher_cancel_def dispatcher_acquire_def worker_finish_def Stop_close_def

lemma send_job_inv: "pool_inv p \<Longrightarrow> can_send p \<Longrightarrow> pool_inv (send_job job p)"
  by (auto simp: pool_inv_def send_job_def can_send_def Let_def)

lemma pool_step_inv: "pool_step p p' \<Longrightarrow> pool_inv p \<Longrightarrow> pool_inv p'"
proof (induction rule: pool_step.induct)
  case (submit ctx_err pick job p r p')
  then show ?case by (auto simp: Submit_def send_job_inv split: if_splits)
next
  case (submit_blocking ctx_err pick job p r p')
  then show ?case by (auto simp: SubmitBlocking_def send_job_inv split: if_splits)
next
  case (receive p p')
  then show ?case by (auto simp: dispatcher_receive_def pool_inv_def split: if_splits list.splits)
next
  case (acquire p p')
  then show ?case by (auto simp: dispatcher_acquire_def pool_inv_def split: dispatcher.splits if_splits)
next
  case (finish job p p')
  then show ?case by (auto simp: worker_finish_def pool_inv_def length_remove1 mset_remove1 split: if_splits)
qed (auto simp: pool_op_defs pool_inv_def split: if_splits)

lemma NewPool_inv: "NewPool qs conc = Some p \<Longrightarrow> pool_inv p \<and> p_dispatcher p \<noteq> Exited"
  by (auto simp: NewPool_def pool_inv_def split: if_splits)

lemma reachable_inv: "reachable p \<Longrightarrow> pool_inv p"
  by (induction rule: reachable.induct) (auto dest: NewPool_inv pool_step_inv)

text \<open>The dispatcher leaves only on a done context or once the closed channel is empty, and then it stays empty.\<close>

definition exit_inv :: "pool \<Rightarrow> bool" where
  "exit_inv p \<longleftrightarrow> p_dispatcher p = Exited \<longrightarrow> p_ctx_done p \<or> p_closed p \<and> p_jobs p = []"

lemma pool_step_exit: "pool_step p p' \<Longrightarrow> exit_inv p \<Longrightarrow> exit_inv p'"
  by (induction rule: pool_step.induct)
    (auto simp: pool_op_defs exit_inv_def Let_def split: if_splits list.splits dispatcher.splits)

lemma reachable_exit: "reachable p \<Longrightarrow> exit_inv p"
  by (induction rule: reachable.induct) (auto dest: NewPool_inv pool_step_exit simp: exit_inv_def)

text \<open>
  C16: In every reachable state of the pool the queue holds at most \<open>QueueSize\<close> jobs and at most
  \<open>Concurrency\<close> jobs run, the semaphore counts exactly the running jobs, jobs start in the order
  they were accepted, and every accepted job is queued, in the dispatcher's hand, running or
  finished, exactly once.
\<close>

theorem pool_invariant:
  assumes "reachable p"
  shows "length (p_jobs p) \<le> p_QueueSize p \<and> length (p_running p) \<le> p_Concurrency p \<and>
    p_semaphore p = length (p_running p) \<and>
    p_accepted p = p_started p @ in_hand (p_dispatcher p) @ p_jobs p \<and>
    mset (p_accepted p) = mset (p_jobs p) + mset (in_hand (p_dispatcher p)) + mset (p_running p) + mset (p_finished p)"
  using reachable_inv [OF assms] by (simp add: pool_inv_def)

text \<open>A pool of queue size 2 and one slot that accepted one job, in its various states.\<close>

definition small_pool :: "Job list \<Rightarrow> bool \<Rightarrow> dispatcher \<Rightarrow> Job list \<Rightarrow> bool \<Rightarrow> Job list \<Rightarrow> pool" where
  "small_pool jobs closed disp running ctx finished = \<lparr>p_QueueSize = 2, p_Concurrency = 1, p_jobs = jobs,
     p_closed = closed, p_dispatcher = disp, p_semaphore = length running, p_running = running, p_ctx_done = ctx,
     p_accepted = [zero_Job], p_started = running @ finished, p_finished = finished\<rparr>"

abbreviation busy_pool :: pool where
  "busy_pool \<equiv> small_pool [zero_Job] False Receiving [] False []"

lemma busy_pool_reachable: "reachable busy_pool"
proof -
  obtain p where p: "NewPool 2 1 = Some p" by (simp add: NewPool_def)
  have "pool_step p (Start_pool p)" using p by (intro pool_step.start) (auto simp: NewPool_def)
  then have "reachable (Start_pool p)" using reachable.new [OF p] reachable.step by blast
  moreover have "Submit False False zero_Job (Start_pool p) = (Accepted, busy_pool)"
    using p by (auto simp: NewPool_def Submit_def Start_pool_def can_send_def send_job_def small_pool_def Let_def)
  ultimately show ?thesis using reachable.step pool_step.submit by blast
qed

theorem pool_invariant_witness: "reachable busy_pool \<and> length (p_jobs busy_pool) \<le> 2"
  using pool_invariant [OF busy_pool_reachable] busy_pool_reachable by (simp add: small_pool_def)

text \<open>The work left: each stage a job has still to pass counts one.\<close>

definition work_left :: "pool \<Rightarrow> nat" where
  "work_left p = 3 * length (p_jobs p) + 2 * length (in_hand (p_dispatcher p)) + length (p_running p)"



text \<open>
  C17: When \<open>Stop\<close> returns without error from a started pool whose context was never cancelled,
  the queue is empty and the finished jobs are exactly the accepted ones.
\<close>

theorem pool_stop_drains:
  assumes "reachable p" and "p_dispatcher p \<noteq> NotStarted" and "\<not> p_ctx_done p" and "Stop_wait ctx p = StopNil"
  shows "p_jobs p = [] \<and> mset (p_finished p) = mset (p_accepted p)"
proof -
  have w: "p_dispatcher p = Exited" "p_running p = []"
    using assms(2,4) by (auto simp: Stop_wait_def wg_done_def split: if_splits)
  then have "p_jobs p = []" using reachable_exit [OF assms(1)] assms(3) by (simp add: exit_inv_def)
  then show ?thesis using reachable_inv [OF assms(1)] w by (simp add: pool_inv_def)
qed

lemma drained_pool_reachable: "reachable (small_pool [] True Exited [] False [zero_Job])"
proof -
  have "dispatcher_receive busy_pool = Some (small_pool [] False (Acquiring zero_Job) [] False [])"
    "dispatcher_acquire (small_pool [] False (Acquiring zero_Job) [] False []) = Some (small_pool [] False Receiving [zero_Job] False [])"
    "worker_finish zero_Job (small_pool [] False Receiving [zero_Job] False []) = Some (small_pool [] False Receiving [] False [zero_Job])"
    "Stop_close (small_pool [] False Receiving [] False [zero_Job]) = Some (small_pool [] True Receiving [] False [zero_Job])"
    "dispatcher_receive (small_pool [] True Receiving [] False [zero_Job]) = Some (small_pool [] True Exited [] False [zero_Job])"
    by (simp_all add: small_pool_def pool_op_defs)
  note steps = pool_step.receive [OF this(1)] pool_step.acquire [OF this(2)] pool_step.finish [OF this(3)]
    pool_step.close [OF this(4)] pool_step.receive [OF this(5)]
  show ?thesis
    by (rule reachable.step [OF reachable.step [OF reachable.step [OF reachable.step [OF reachable.step [OF
      busy_pool_reachable steps(1)] steps(2)] steps(3)] steps(4)] steps(5)])
qed

theorem pool_stop_drains_witness:
  "let p = small_pool [] True Exited [] False [zero_Job] in Stop_wait False p = StopNil \<and> p_jobs p = []"
proof -
  let ?p = "small_pool [] True Exited [] False [zero_Job]"
  have "Stop_wait False ?p = StopNil" by (simp add: Stop_wait_def wg_done_def small_pool_def)
  with pool_stop_drains [OF drained_pool_reachable _ _ this] show ?thesis by (simp add: small_pool_def)
qed

text \<open>
  After the context is cancelled, which is how the server shuts down, the dispatcher may leave
  with jobs still queued: \<open>Stop\<close> then returns nil although an accepted job was neither run nor
  handed back.
\<close>

theorem pool_cancel_abandons:
  "\<exists>p. reachable p \<and> Stop_wait False p = StopNil \<and> p_jobs p \<noteq> [] \<and> p_finished p = []"
proof -
  have "dispatcher_cancel (small_pool [zero_Job] False Receiving [] True []) = Some (small_pool [zero_Job] False Exited [] True [])"
    "Stop_close (small_pool [zero_Job] False Exited [] True []) = Some (small_pool [zero_Job] True Exited [] True [])"
    "busy_pool\<lparr>p_ctx_done := True\<rparr> = small_pool [zero_Job] False Receiving [] True []"
    by (simp_all add: small_pool_def pool_op_defs)
  note steps = pool_step.ctx [of busy_pool, unfolded this(3)] pool_step.cancel [OF this(1)] pool_step.close [OF this(2)]
  have "reachable (small_pool [zero_Job] True Exited [] True [])"
    by (rule reachable.step [OF reachable.step [OF reachable.step [OF busy_pool_reachable steps(1)] steps(2)] steps(3)])
  then show ?thesis
    by (intro exI [of _ "small_pool [zero_Job] True Exited [] True []"]) (simp add: small_pool_def Stop_wait_def wg_done_def)
qed

end
