(* ===== verification/Reconciler.thy ===== *)
theory Reconciler
  imports Store_Correct Pool
begin

text \<open>
  The reconciler of \<open>internal/reconciler/reconciler.go\<close>: its configuration, start and stop, and
  the pass \<open>reconcile\<close> that recovers expired leases and then claims due jobs and submits them,
  at most a batch. The pass takes the store and the submitter as arguments, as the Go struct
  holds them as interfaces; the locales \<open>claim_store\<close> and \<open>submitter\<close> say what it relies on,
  and are interpreted on the PostgreSQL store and the worker pool. Lemmas: every submitted job
  is held in the store under its own lease and was accepted by the pool, the pass goes idle
  only when nothing is due, all that is due is submitted when the claims run dry, a failed job is
  never touched, and a job without idempotency key is claimed but never submitted.
\<close>

section \<open>Model\<close>

record recon_config =
  rc_Interval :: duration
  rc_IdleInterval :: duration
  rc_BatchSize :: int
  rc_RunningLease :: duration

record Reconciler =
  rec_cfg :: recon_config
  rec_cancel :: bool
  rec_loops :: nat

definition New_reconciler :: "recon_config \<Rightarrow> Reconciler" where
  "New_reconciler cfg0 = (let
     cfg1 = (if rc_Interval cfg0 \<le> 0 then cfg0\<lparr>rc_Interval := Minute\<rparr> else cfg0);
     cfg2 = (if rc_IdleInterval cfg1 \<le> 0 then cfg1\<lparr>rc_IdleInterval := rc_Interval cfg1\<rparr> else cfg1);
     cfg3 = (if rc_IdleInterval cfg2 < rc_Interval cfg2 then cfg2\<lparr>rc_IdleInterval := rc_Interval cfg2\<rparr> else cfg2);
     cfg4 = (if rc_BatchSize cfg3 \<le> 0 then cfg3\<lparr>rc_BatchSize := 100\<rparr> else cfg3);
     cfg5 = (if rc_RunningLease cfg4 \<le> 0 then cfg4\<lparr>rc_RunningLease := 5 * Minute\<rparr> else cfg4)
   in \<lparr>rec_cfg = cfg5, rec_cancel = False, rec_loops = 0\<rparr>)"

text \<open>\<open>rec_cancel\<close>: the cancel function is set; \<open>rec_loops\<close>: goroutines alive.\<close>

definition Start_reconciler :: "Reconciler \<Rightarrow> Reconciler" where
  "Start_reconciler r = (if rec_cancel r then r else r\<lparr>rec_cancel := True, rec_loops := rec_loops r + 1\<rparr>)"

definition Stop_reconciler :: "Reconciler \<Rightarrow> Reconciler" where
  "Stop_reconciler r = r\<lparr>rec_cancel := False, rec_loops := 0\<rparr>"

definition nextInterval :: "recon_config \<Rightarrow> bool \<Rightarrow> duration" where
  "nextInterval cfg hadWork = (if hadWork then rc_Interval cfg else rc_IdleInterval cfg)"

text \<open>What one turn of the claim loop meets: a cancelled context, the two store calls, and the submitter's situation.\<close>

record ('c, 'w) recon_round =
  rr_cancelled :: bool
  rr_claim :: 'c
  rr_release :: 'c
  rr_submit :: 'w

datatype loop_end = BatchFull | NoneDue | LoopCancelled | ClaimFailed | SubmitRejected

fun claim_loop ::
  "('c \<Rightarrow> duration \<Rightarrow> 'st \<Rightarrow> (store_error + Job) \<times> 'st) \<Rightarrow>
   ('c \<Rightarrow> Job \<Rightarrow> string \<Rightarrow> 'st \<Rightarrow> (store_error + unit) \<times> 'st) \<Rightarrow>
   ('w \<Rightarrow> Job \<Rightarrow> 'p \<Rightarrow> bool \<times> 'p) \<Rightarrow>
   duration \<Rightarrow> (nat \<Rightarrow> ('c, 'w) recon_round) \<Rightarrow> nat \<Rightarrow> nat \<Rightarrow> 'st \<Rightarrow> 'p \<Rightarrow> loop_end \<times> Job list \<times> 'st \<times> 'p" where
  "claim_loop claim release submit lease rounds 0 k st p = (BatchFull, [], st, p)"
| "claim_loop claim release submit lease rounds (Suc left) k st p =
    (if rr_cancelled (rounds k) then (LoopCancelled, [], st, p)
     else case claim (rr_claim (rounds k)) lease st of
       (Inl err, st1) \<Rightarrow> (if err = ErrJobNotFound then NoneDue else ClaimFailed, [], st1, p)
     | (Inr job, st1) \<Rightarrow>
         (case submit (rr_submit (rounds k)) job p of
            (False, p1) \<Rightarrow>
              (SubmitRejected, [], snd (release (rr_release (rounds k)) job ''worker pool rejected claimed job'' st1), p1)
          | (True, p1) \<Rightarrow>
              (let (e, jobs, st2, p2) = claim_loop claim release submit lease rounds left (Suc k) st1 p1
               in (e, job # jobs, st2, p2))))"

definition reconcile ::
  "('c \<Rightarrow> int \<Rightarrow> 'st \<Rightarrow> (store_error + int) \<times> 'st) \<Rightarrow>
   ('c \<Rightarrow> duration \<Rightarrow> 'st \<Rightarrow> (store_error + Job) \<times> 'st) \<Rightarrow>
   ('c \<Rightarrow> Job \<Rightarrow> string \<Rightarrow> 'st \<Rightarrow> (store_error + unit) \<times> 'st) \<Rightarrow>
   ('w \<Rightarrow> Job \<Rightarrow> 'p \<Rightarrow> bool \<times> 'p) \<Rightarrow>
   recon_config \<Rightarrow> 'c \<Rightarrow> (nat \<Rightarrow> ('c, 'w) recon_round) \<Rightarrow> 'st \<Rightarrow> 'p \<Rightarrow> bool \<times> Job list \<times> 'st \<times> 'p" where
  "reconcile requeue claim release submit cfg c rounds st p =
    (let (res, st1) = requeue c (rc_BatchSize cfg) st;
         hadWork = (case res of Inl err \<Rightarrow> True | Inr requeued \<Rightarrow> requeued > 0);
         (e, jobs, st2, p2) = claim_loop claim release submit (rc_RunningLease cfg) rounds (nat (rc_BatchSize cfg)) 0 st1 p
     in (case e of LoopCancelled \<Rightarrow> hadWork | ClaimFailed \<Rightarrow> True | SubmitRejected \<Rightarrow> True
           | _ \<Rightarrow> if jobs \<noteq> [] then True else hadWork, jobs, st2, p2))"

section \<open>The interfaces\<close>

text \<open>\<open>held st job\<close>: the store has the job running under the job's own lease token.\<close>

locale claim_store =
  fixes claim :: "'c \<Rightarrow> duration \<Rightarrow> 'st \<Rightarrow> (store_error + Job) \<times> 'st"
    and release :: "'c \<Rightarrow> Job \<Rightarrow> string \<Rightarrow> 'st \<Rightarrow> (store_error + unit) \<times> 'st"
    and held :: "'st \<Rightarrow> Job \<Rightarrow> bool"
    and inv :: "'st \<Rightarrow> bool"
  assumes claim_inv: "inv st \<Longrightarrow> claim c d st = (r, st') \<Longrightarrow> inv st'"
    and claim_held: "inv st \<Longrightarrow> claim c d st = (Inr job, st') \<Longrightarrow> held st' job"
    and claim_keeps: "inv st \<Longrightarrow> claim c d st = (r, st') \<Longrightarrow> held st job \<Longrightarrow> held st' job"
    and claim_fresh: "inv st \<Longrightarrow> claim c d st = (Inr job, st') \<Longrightarrow> held st job' \<Longrightarrow> job_ID job' \<noteq> job_ID job"
    and release_inv: "inv st \<Longrightarrow> inv (snd (release c job reason st))"
    and release_keeps: "inv st \<Longrightarrow> held st job' \<Longrightarrow> job_ID job' \<noteq> job_ID job \<Longrightarrow> held (snd (release c job reason st)) job'"

locale submitter =
  fixes submit :: "'w \<Rightarrow> Job \<Rightarrow> 'p \<Rightarrow> bool \<times> 'p"
    and accepted :: "'p \<Rightarrow> Job list"
  assumes submit_keeps: "submit w job p = (b, p') \<Longrightarrow> set (accepted p) \<subseteq> set (accepted p')"
    and submit_accepted: "submit w job p = (True, p') \<Longrightarrow> job \<in> set (accepted p')"

locale reconciler_deps = claim_store claim release held inv + submitter submit accepted
  for claim :: "'c \<Rightarrow> duration \<Rightarrow> 'st \<Rightarrow> (store_error + Job) \<times> 'st" and release held inv
    and submit :: "'w \<Rightarrow> Job \<Rightarrow> 'p \<Rightarrow> bool \<times> 'p" and accepted
begin

lemma claim_loop_length: "claim_loop claim release submit d rounds left k st p = (e, jobs, st', p') \<Longrightarrow> length jobs \<le> left"
  by (induction left arbitrary: k st p e jobs st' p')
    (auto split: if_splits prod.splits sum.splits bool.splits)

definition loop_ok :: "'st \<Rightarrow> 'p \<Rightarrow> Job list \<Rightarrow> 'st \<Rightarrow> 'p \<Rightarrow> bool" where
  "loop_ok st p jobs st' p' \<longleftrightarrow> inv st' \<and> (\<forall>j. held st j \<longrightarrow> held st' j \<and> job_ID j \<notin> job_ID ` set jobs) \<and>
     (\<forall>j \<in> set jobs. held st' j \<and> j \<in> set (accepted p')) \<and> set (accepted p) \<subseteq> set (accepted p') \<and> distinct (map job_ID jobs)"

lemma loop_ok_step:
  assumes "inv st" and "claim c d st = (Inr job, st1)" and "submit w job p = (True, p1)" and "loop_ok st1 p1 jobs st' p'"
  shows "loop_ok st p (job # jobs) st' p'"
  unfolding loop_ok_def
proof (intro conjI ballI allI impI)
  have held: "held st1 job" by (rule claim_held [OF assms(1,2)])
  fix j assume j: "held st j"
  have "held st1 j" "job_ID j \<noteq> job_ID job" using claim_keeps [OF assms(1,2) j] claim_fresh [OF assms(1,2) j] .
  then show "held st' j" "job_ID j \<notin> job_ID ` set (job # jobs)" using assms(4) by (auto simp: loop_ok_def)
next
  have held: "held st1 job" by (rule claim_held [OF assms(1,2)])
  fix j assume "j \<in> set (job # jobs)"
  then show "held st' j" "j \<in> set (accepted p')"
    using assms(4) held submit_accepted [OF assms(3)] by (auto simp: loop_ok_def)
next
  show "set (accepted p) \<subseteq> set (accepted p')" "inv st'"
    using assms(4) submit_keeps [OF assms(3)] by (auto simp: loop_ok_def)
  show "distinct (map job_ID (job # jobs))"
    using assms(4) claim_held [OF assms(1,2)] by (auto simp: loop_ok_def)
qed

lemma loop_ok_rejected:
  assumes "inv st" and "claim c d st = (Inr job, st1)" and "submit w job p = (False, p1)"
  shows "loop_ok st p [] (snd (release c' job reason st1)) p1"
  using claim_inv [OF assms(1,2)] claim_keeps [OF assms(1,2)] claim_fresh [OF assms(1,2)] submit_keeps [OF assms(3)]
  by (auto simp: loop_ok_def release_inv release_keeps)

lemma claim_loop_ok:
  "inv st \<Longrightarrow> claim_loop claim release submit d rounds left k st p = (e, jobs, st', p') \<Longrightarrow> loop_ok st p jobs st' p'"
proof (induction left arbitrary: k st p e jobs st' p')
  case 0
  then show ?case by (simp add: loop_ok_def)
next
  case (Suc left)
  obtain r st1 where cl: "claim (rr_claim (rounds k)) d st = (r, st1)" by fastforce
  consider "rr_cancelled (rounds k)" | err where "\<not> rr_cancelled (rounds k)" "r = Inl err"
    | job b p1 where "\<not> rr_cancelled (rounds k)" "r = Inr job" "submit (rr_submit (rounds k)) job p = (b, p1)"
    by (metis Inl_Inr_False obj_sumE surj_pair)
  then show ?case
  proof cases
    case 3
    obtain e' jobs' st2 p2 where rest: "claim_loop claim release submit d rounds left (Suc k) st1 p1 = (e', jobs', st2, p2)"
      by (metis surj_pair)
    have "loop_ok st1 p1 jobs' st2 p2" using Suc.IH [OF claim_inv [OF Suc.prems(1) cl] rest] .
    then show ?thesis using Suc.prems 3 cl rest
      by (cases b) (auto intro: loop_ok_step loop_ok_rejected)
  qed (use Suc.prems cl claim_inv [OF Suc.prems(1) cl] claim_keeps [OF Suc.prems(1) cl] in \<open>auto simp: loop_ok_def\<close>)
qed

end

section \<open>The providers\<close>

definition held_row :: "table \<Rightarrow> Job \<Rightarrow> bool" where
  "held_row tbl job \<longleftrightarrow> (\<exists>r \<in> set tbl. holds_lease job r)"

lemma held_row_lookup: "table_inv tbl \<Longrightarrow> held_row tbl job \<longleftrightarrow> (\<exists>r. lookup_row (job_ID job) tbl = Some r \<and> holds_lease job r)"
  unfolding held_row_def by (metis holds_lease_def lookup_row_Some lookup_row_mem)

lemma claim_held_row:
  assumes "table_inv tbl" and "ClaimNextJob pg c d tbl = (Inr job, tbl')"
  shows "held_row tbl' job" and "held_row tbl job' \<Longrightarrow> job_ID job' \<noteq> job_ID job"
proof -
  obtain r where r: "r \<in> set tbl" "claimable c r" "job_ID job = row_id r"
    "lookup_row (row_id r) tbl' = Some (claim_set pg c d (job_LeaseToken job) r)"
    using claim_row [OF assms] by auto
  have "table_inv tbl'" using table_inv_rowwise [OF row_step_identity [OF ClaimNextJob_rows [OF assms(1), of pg c d]]] assms
    by simp
  then show "held_row tbl' job" using r by (simp add: held_row_lookup holds_lease_def claim_set_def)
  show "job_ID job' \<noteq> job_ID job" if "held_row tbl job'"
  proof
    assume "job_ID job' = job_ID job"
    then have "holds_lease job' r"
      using that r(1,3) lookup_row_mem [OF assms(1) r(1)] by (auto simp: held_row_lookup [OF assms(1)])
    with r(2) show False by (simp add: holds_lease_def claimable_def)
  qed
qed

lemma claim_keeps_held:
  assumes "table_inv tbl" and "held_row tbl job"
  shows "held_row (snd (ClaimNextJob pg c d tbl)) job"
  using ClaimNextJob_cases [of pg c d tbl]
proof
  assume "\<exists>r \<in> set tbl. \<exists>tok. claimable c r \<and> fst (ClaimNextJob pg c d tbl) = scanJob pg (claim_set pg c d tok r) \<and>
     snd (ClaimNextJob pg c d tbl) = map (\<lambda>q. if row_id q = row_id r then claim_set pg c d tok q else q) tbl"
  then obtain r tok where r: "r \<in> set tbl" "claimable c r"
    "snd (ClaimNextJob pg c d tbl) = map (\<lambda>q. if row_id q = row_id r then claim_set pg c d tok q else q) tbl" by blast
  obtain q where q: "q \<in> set tbl" "holds_lease job q" using assms(2) by (auto simp: held_row_def)
  then have "row_id q \<noteq> row_id r"
    using table_inv_idD [OF assms(1) q(1) r(1)] r(2) by (auto simp: holds_lease_def claimable_def)
  then show ?thesis using q unfolding r(3) held_row_def by (auto simp: image_iff intro!: bexI [of _ q])
qed (use assms(2) in simp)

interpretation pg_claims: claim_store "ClaimNextJob pg" "ReleaseClaim pg" held_row table_inv for pg
proof
  fix tbl tbl' c d r job job' reason
  assume inv: "table_inv tbl"
  show "ClaimNextJob pg c d tbl = (r, tbl') \<Longrightarrow> table_inv tbl'"
    using table_inv_rowwise [OF row_step_identity [OF ClaimNextJob_rows [OF inv, of pg c d]]] inv by simp
  show "ClaimNextJob pg c d tbl = (Inr job, tbl') \<Longrightarrow> held_row tbl' job"
    "ClaimNextJob pg c d tbl = (Inr job, tbl') \<Longrightarrow> held_row tbl job' \<Longrightarrow> job_ID job' \<noteq> job_ID job"
    using claim_held_row [OF inv] by blast+
  show "ClaimNextJob pg c d tbl = (r, tbl') \<Longrightarrow> held_row tbl job \<Longrightarrow> held_row tbl' job"
    using claim_keeps_held [OF inv, of job pg c d] by simp
  show "table_inv (snd (ReleaseClaim pg c job reason tbl))"
    using table_inv_rowwise [OF row_step_identity [OF ReleaseClaim_rows]] inv by blast
  show "held_row tbl job' \<Longrightarrow> job_ID job' \<noteq> job_ID job \<Longrightarrow> held_row (snd (ReleaseClaim pg c job reason tbl)) job'"
    by (auto simp: ReleaseClaim_def held_row_def holds_lease_def split: option.split)
qed

text \<open>
  The pool as submitter: while \<open>SubmitBlocking\<close> waits for room the pool goes on working, then
  the send succeeds or the context ends the wait. The server stops the reconciler before it
  closes the pool, so the panic of a closed channel does not occur here.
\<close>

datatype pool_move = MvReceive | MvCancel | MvAcquire | MvFinish Job

fun pool_moved :: "pool_move \<Rightarrow> pool \<Rightarrow> pool option" where
  "pool_moved MvReceive p = dispatcher_receive p"
| "pool_moved MvCancel p = dispatcher_cancel p"
| "pool_moved MvAcquire p = dispatcher_acquire p"
| "pool_moved (MvFinish job) p = worker_finish job p"

fun pool_waits :: "pool_move list \<Rightarrow> pool \<Rightarrow> pool" where
  "pool_waits [] p = p"
| "pool_waits (m # ms) p = (case pool_moved m p of None \<Rightarrow> pool_waits ms p | Some p' \<Rightarrow> pool_waits ms p')"

definition pool_submit :: "bool \<times> pool_move list \<times> bool \<Rightarrow> Job \<Rightarrow> pool \<Rightarrow> bool \<times> pool" where
  "pool_submit w job p = (case w of (ctx_err, moves, pick) \<Rightarrow>
     if ctx_err then (False, p)
     else let (r, p') = SubmitBlocking False pick job (pool_waits moves p) in (r = Accepted, p'))"

lemma pool_moved_step: "pool_moved m p = Some p' \<Longrightarrow> pool_step p p' \<and> p_accepted p' = p_accepted p"
  by (cases m) (auto intro: pool_step.intros simp: pool_op_defs split: if_splits list.splits dispatcher.splits)

lemma pool_waits_reach: "pool_step\<^sup>*\<^sup>* p (pool_waits ms p) \<and> p_accepted (pool_waits ms p) = p_accepted p"
proof (induction ms p rule: pool_waits.induct)
  case (2 m ms p)
  then show ?case
    by (auto split: option.split dest: pool_moved_step intro: converse_rtranclp_into_rtranclp)
qed simp

interpretation pool_submitter: submitter pool_submit p_accepted
proof
  show "pool_submit w job p = (b, p') \<Longrightarrow> set (p_accepted p) \<subseteq> set (p_accepted p')" for w job p b p'
    using pool_waits_reach by (auto simp: pool_submit_def SubmitBlocking_def send_job_def Let_def split: if_splits prod.splits)
  show "pool_submit w job p = (True, p') \<Longrightarrow> job \<in> set (p_accepted p')" for w job p p'
    by (auto simp: pool_submit_def SubmitBlocking_def send_job_def Let_def split: if_splits prod.splits)
qed

interpretation recon: reconciler_deps "ClaimNextJob pg" "ReleaseClaim pg" held_row table_inv pool_submit p_accepted for pg
  by unfold_locales

abbreviation reconcile_pg where
  "reconcile_pg pg \<equiv> reconcile RequeueExpiredRunning (ClaimNextJob pg) (ReleaseClaim pg) pool_submit"

text \<open>A pass is one requeue statement, then the claim loop on the table it left.\<close>

lemma reconcile_pg_parts:
  assumes "table_inv tbl" and "reconcile_pg pg cfg c rounds tbl p = (hadWork, jobs, tbl', p')"
  obtains res tbl1 e where "RequeueExpiredRunning c (rc_BatchSize cfg) tbl = (res, tbl1)" and "table_inv tbl1"
    and "claim_loop (ClaimNextJob pg) (ReleaseClaim pg) pool_submit (rc_RunningLease cfg) rounds
      (nat (rc_BatchSize cfg)) 0 tbl1 p = (e, jobs, tbl', p')"
    and "hadWork = (case e of LoopCancelled \<Rightarrow> (case res of Inl err \<Rightarrow> True | Inr requeued \<Rightarrow> requeued > 0)
        | ClaimFailed \<Rightarrow> True | SubmitRejected \<Rightarrow> True
        | _ \<Rightarrow> if jobs \<noteq> [] then True else (case res of Inl err \<Rightarrow> True | Inr requeued \<Rightarrow> requeued > 0))"
proof -
  obtain res tbl1 where rq: "RequeueExpiredRunning c (rc_BatchSize cfg) tbl = (res, tbl1)" by fastforce
  have "table_inv tbl1"
    using table_inv_rowwise [OF row_step_identity [OF RequeueExpiredRunning_rows [OF assms(1), of c "rc_BatchSize cfg"]]] assms(1) rq
    by simp
  with rq show ?thesis using assms(2) that by (auto simp: reconcile_def Let_def split: prod.splits)
qed

section \<open>Properties\<close>

text \<open>
  C28: One pass submits at most \<open>BatchSize\<close> jobs, pairwise different. Each of them was accepted by
  the pool, and in the store its row is running under exactly the lease token the submitted job
  carries; jobs that were running under a lease before the claims keep it.
\<close>

theorem reconcile_hands_over:
  assumes "table_inv tbl" and "reconcile_pg pg cfg c rounds tbl p = (hadWork, jobs, tbl', p')"
  shows "length jobs \<le> nat (rc_BatchSize cfg) \<and> distinct (map job_ID jobs) \<and> table_inv tbl' \<and>
    (\<forall>job \<in> set jobs. job \<in> set (p_accepted p') \<and> held_row tbl' job)"
proof -
  obtain res tbl1 e where inv: "table_inv tbl1" and loop: "claim_loop (ClaimNextJob pg) (ReleaseClaim pg) pool_submit
      (rc_RunningLease cfg) rounds (nat (rc_BatchSize cfg)) 0 tbl1 p = (e, jobs, tbl', p')"
    using assms by (rule reconcile_pg_parts)
  from recon.claim_loop_ok [OF inv loop] recon.claim_loop_length [OF loop] show ?thesis
    by (simp add: recon.loop_ok_def)
qed

definition sample_recon_config :: recon_config where
  "sample_recon_config = rec_cfg (New_reconciler \<lparr>rc_Interval = 0, rc_IdleInterval = 0, rc_BatchSize = 2, rc_RunningLease = 0\<rparr>)"

definition sample_rounds :: "nat \<Rightarrow> (call, bool \<times> pool_move list \<times> bool) recon_round" where
  "sample_rounds k = \<lparr>rr_cancelled = False, rr_claim = quiet 9000 [7], rr_release = quiet 9000 [], rr_submit = (False, [], False)\<rparr>"

lemmas recon_eval = reconcile_def sample_recon_config_def New_reconciler_def sample_rounds_def numeral_2_eq_2
  RequeueExpiredRunning_def select_expired_def lease_expired_def ClaimNextJob_def newLeaseToken_def select_claim_def
  claimable_def sample_pending_def scanJob_def claim_set_def pool_submit_def SubmitBlocking_def can_send_def send_job_def
  small_pool_def

theorem reconcile_hands_over_witness:
  "\<exists>job tbl' p'. reconcile_pg sample_pg sample_recon_config (quiet 9000 []) sample_rounds [sample_pending] busy_pool =
     (True, [job], tbl', p') \<and> job_ID job = ''j1'' \<and> held_row tbl' job"
proof -
  obtain job tbl' p' where run: "reconcile_pg sample_pg sample_recon_config (quiet 9000 []) sample_rounds [sample_pending] busy_pool =
     (True, [job], tbl', p')" and "job_ID job = ''j1''"
    by (simp add: recon_eval)
  then show ?thesis using reconcile_hands_over [OF sample_pending_inv run] by auto
qed

lemma New_reconciler_config:
  assumes "cfg = rec_cfg (New_reconciler cfg0)"
  shows "0 < rc_Interval cfg" "rc_Interval cfg \<le> rc_IdleInterval cfg" "0 < rc_BatchSize cfg" "0 < rc_RunningLease cfg"
    "rc_Interval cfg \<le> nextInterval cfg b"
  using duration_pos unfolding assms by (auto simp: New_reconciler_def Let_def nextInterval_def)

lemma claim_NoneDue:
  assumes "ClaimNextJob pg c d tbl = (Inl ErrJobNotFound, tbl')"
  shows "tbl' = tbl" and "\<forall>r \<in> set tbl. \<not> claimable c r"
proof -
  have "scanJob pg r \<noteq> Inl ErrJobNotFound" for r
    by (auto simp: scanJob_def scan_text_def split: sum.splits option.splits)
  then have "select_claim c tbl = []" "tbl' = tbl"
    using assms by (auto simp: ClaimNextJob_def newLeaseToken_def split: option.splits list.splits)
  then show "tbl' = tbl" "\<forall>r \<in> set tbl. \<not> claimable c r" by (simp_all add: select_claim_Nil)
qed

lemma claim_loop_not_cancelled:
  "\<forall>k. \<not> rr_cancelled (rounds k) \<Longrightarrow> claim_loop claim release submit d rounds left k st p = (e, jobs, st', p') \<Longrightarrow>
   e \<noteq> LoopCancelled"
  by (induction left arbitrary: k st p jobs st' p') (auto split: prod.splits sum.splits bool.splits if_splits)

text \<open>
  A pass that the context does not interrupt reports that it had no work, after which the reconciler waits the longer idle
  interval, only when there was none: no running job's lease had expired, no pending job was
  due and unlocked, nothing was submitted, and the table is as before.
\<close>

theorem reconcile_idle_sound:
  assumes "table_inv tbl" and "cfg = rec_cfg (New_reconciler cfg0)" and "\<forall>k. \<not> rr_cancelled (rounds k)"
    and "reconcile_pg pg cfg c rounds tbl p = (False, jobs, tbl', p')"
  shows "tbl' = tbl \<and> jobs = [] \<and> (\<forall>r \<in> set tbl. \<not> lease_expired c r \<and> \<not> claimable (rr_claim (rounds 0)) r)"
proof -
  have batch: "0 < rc_BatchSize cfg" by (rule New_reconciler_config [OF assms(2)])
  obtain r tbl1 e where rq: "RequeueExpiredRunning c (rc_BatchSize cfg) tbl = (r, tbl1)"
    and loop: "claim_loop (ClaimNextJob pg) (ReleaseClaim pg) pool_submit (rc_RunningLease cfg) rounds
      (nat (rc_BatchSize cfg)) 0 tbl1 p = (e, jobs, tbl', p')"
    and had: "False = (case e of LoopCancelled \<Rightarrow> (case r of Inl err \<Rightarrow> True | Inr requeued \<Rightarrow> requeued > 0)
        | ClaimFailed \<Rightarrow> True | SubmitRejected \<Rightarrow> True
        | _ \<Rightarrow> if jobs \<noteq> [] then True else (case r of Inl err \<Rightarrow> True | Inr requeued \<Rightarrow> requeued > 0))"
    using assms(1,4) by (rule reconcile_pg_parts)
  have "e \<noteq> LoopCancelled" by (rule claim_loop_not_cancelled [OF assms(3) loop])
  then have e: "e \<in> {BatchFull, NoneDue}" "jobs = []" and "\<not> (case r of Inl err \<Rightarrow> True | Inr n \<Rightarrow> n > 0)"
    using had by (auto split: loop_end.splits if_splits)
  then obtain n where n: "r = Inr n" "n \<le> 0" by (cases r) auto
  then have fault: "c_fault c = None"
    using rq batch by (cases "c_fault c") (simp_all add: RequeueExpiredRunning_def)
  have len: "min (rc_BatchSize cfg) (int (length (filter (lease_expired c) tbl))) \<le> 0"
    and t1: "tbl1 = map (\<lambda>r. if r \<in> set (select_expired c (rc_BatchSize cfg) tbl) then requeue_set c r else r) tbl"
    using RequeueExpiredRunning_eval [OF assms(1) fault batch] rq n by simp_all
  then have none: "\<forall>r \<in> set tbl. \<not> lease_expired c r" using batch by (simp add: min_le_iff_disj filter_empty_conv)
  then have "filter (lease_expired c) tbl = []" by (simp add: filter_empty_conv)
  then have "select_expired c (rc_BatchSize cfg) tbl = []" by (simp add: select_expired_def)
  then have "tbl1 = tbl" using t1 by simp
  moreover obtain k where "nat (rc_BatchSize cfg) = Suc k" using batch by (cases "nat (rc_BatchSize cfg)") auto
  ultimately have "ClaimNextJob pg (rr_claim (rounds 0)) (rc_RunningLease cfg) tbl = (Inl ErrJobNotFound, tbl')"
    using loop e assms(3) by (auto split: prod.splits sum.splits if_splits bool.splits)
  from claim_NoneDue [OF this] none e(2) show ?thesis by simp
qed

theorem reconcile_idle_sound_witness:
  "reconcile_pg sample_pg sample_recon_config (quiet 9 []) (\<lambda>k. (sample_rounds k)\<lparr>rr_claim := quiet 9 [7]\<rparr>) [sample_pending] busy_pool =
     (False, [], [sample_pending], busy_pool) \<and> \<not> claimable (quiet 9 [7]) sample_pending"
proof -
  let ?rounds = "\<lambda>k. (sample_rounds k)\<lparr>rr_claim := quiet 9 [7]\<rparr>"
  have run: "reconcile_pg sample_pg sample_recon_config (quiet 9 []) ?rounds [sample_pending] busy_pool =
     (False, [], [sample_pending], busy_pool)"
    by (simp add: recon_eval)
  have "\<forall>k. \<not> rr_cancelled (?rounds k)" by (simp add: sample_rounds_def)
  from reconcile_idle_sound [OF sample_pending_inv sample_recon_config_def this run] run show ?thesis
    by (simp add: sample_rounds_def)
qed

text \<open>Rows neither pending nor running are out of reach of every statement of the pass.\<close>

lemma claim_keeps_idle:
  assumes "table_inv tbl" and "r \<in> set tbl" and "row_state r \<noteq> JobStatePending"
  shows "r \<in> set (snd (ClaimNextJob pg c d tbl))"
  using ClaimNextJob_cases [of pg c d tbl]
proof
  assume "\<exists>r \<in> set tbl. \<exists>tok. claimable c r \<and> fst (ClaimNextJob pg c d tbl) = scanJob pg (claim_set pg c d tok r) \<and>
     snd (ClaimNextJob pg c d tbl) = map (\<lambda>q. if row_id q = row_id r then claim_set pg c d tok q else q) tbl"
  then obtain q tok where q: "q \<in> set tbl" "claimable c q"
    "snd (ClaimNextJob pg c d tbl) = map (\<lambda>r. if row_id r = row_id q then claim_set pg c d tok r else r) tbl" by blast
  then have "row_id r \<noteq> row_id q"
    using table_inv_idD [OF assms(1,2) q(1)] assms(3) by (auto simp: claimable_def)
  then show ?thesis using assms(2) unfolding q(3) by (auto simp: image_iff intro!: bexI [of _ r])
qed (use assms(2) in simp)

lemma release_keeps_idle:
  "r \<in> set tbl \<Longrightarrow> row_state r \<noteq> JobStateRunning \<Longrightarrow> r \<in> set (snd (ReleaseClaim pg c job reason tbl))"
  by (auto simp: ReleaseClaim_def holds_lease_def image_iff intro!: bexI [of _ r] split: option.split)

lemma requeue_keeps_idle:
  assumes "table_inv tbl" and "r \<in> set tbl" and "row_state r \<noteq> JobStateRunning"
  shows "r \<in> set (snd (RequeueExpiredRunning c limit tbl))"
  by (rule requeue_keeps [OF assms(1,2)]) (use assms(3) in \<open>simp add: lease_expired_def\<close>)

lemma claim_loop_keeps_idle:
  "table_inv tbl \<Longrightarrow> r \<in> set tbl \<Longrightarrow> row_state r \<notin> {JobStatePending, JobStateRunning} \<Longrightarrow>
   claim_loop (ClaimNextJob pg) (ReleaseClaim pg) submit d rounds left k tbl p = (e, jobs, tbl', p') \<Longrightarrow> r \<in> set tbl'"
proof (induction left arbitrary: k tbl p e jobs tbl' p')
  case (Suc left)
  obtain res tbl1 where cl: "ClaimNextJob pg (rr_claim (rounds k)) d tbl = (res, tbl1)" by fastforce
  have in1: "r \<in> set tbl1" using claim_keeps_idle [OF Suc.prems(1,2), of pg "rr_claim (rounds k)" d] Suc.prems(3) cl by simp
  have inv1: "table_inv tbl1" by (rule pg_claims.claim_inv [OF Suc.prems(1) cl])
  show ?case
    using Suc.prems(2,4) cl Suc.IH [OF inv1 in1 Suc.prems(3)] release_keeps_idle [OF in1] Suc.prems(3) in1
    by (auto split: if_splits sum.splits prod.splits bool.splits)
qed simp

text \<open>
  C39: A job left in state FAILED, which \<open>scheduleRetry\<close> writes before the second update that
  would make it PENDING again, is never picked up by the reconciler: whatever the pass does, the
  row is still in the table unchanged afterwards. A worker that dies between the two updates
  therefore strands the job.
\<close>

theorem failed_job_stranded:
  assumes "table_inv tbl" and "r \<in> set tbl" and "row_state r = JobStateFailed"
    and "reconcile_pg pg cfg c rounds tbl p = (hadWork, jobs, tbl', p')"
  shows "r \<in> set tbl' \<and> row_id r \<notin> job_ID ` set jobs"
proof -
  obtain res tbl1 e where rq: "RequeueExpiredRunning c (rc_BatchSize cfg) tbl = (res, tbl1)" and inv: "table_inv tbl1"
    and loop: "claim_loop (ClaimNextJob pg) (ReleaseClaim pg) pool_submit (rc_RunningLease cfg) rounds
      (nat (rc_BatchSize cfg)) 0 tbl1 p = (e, jobs, tbl', p')"
    using assms(1,4) by (rule reconcile_pg_parts)
  have "r \<in> set tbl1" using requeue_keeps_idle [OF assms(1,2), of c "rc_BatchSize cfg"] assms(3) rq by simp
  then have r: "r \<in> set tbl'" using claim_loop_keeps_idle [OF inv _ _ loop, of r] assms(3) by simp
  have "row_id r \<noteq> job_ID job" if "job \<in> set jobs" for job
  proof
    assume id: "row_id r = job_ID job"
    have "table_inv tbl'" "held_row tbl' job"
      using recon.claim_loop_ok [OF inv loop] that unfolding recon.loop_ok_def by blast+
    then show False using lookup_row_mem [OF _ r] id assms(3) by (simp add: held_row_lookup holds_lease_def)
  qed
  with r show ?thesis by auto
qed

theorem failed_job_stranded_witness:
  "\<exists>jobs tbl' p'. reconcile_pg sample_pg sample_recon_config (quiet 9000 []) sample_rounds
       [sample_pending\<lparr>row_state := JobStateFailed\<rparr>] busy_pool = (False, jobs, tbl', p') \<and>
     sample_pending\<lparr>row_state := JobStateFailed\<rparr> \<in> set tbl'"
proof -
  let ?r = "sample_pending\<lparr>row_state := JobStateFailed\<rparr>"
  obtain jobs tbl' p' where run: "reconcile_pg sample_pg sample_recon_config (quiet 9000 []) sample_rounds [?r] busy_pool =
     (False, jobs, tbl', p')"
    by (simp add: recon_eval)
  have "table_inv [?r]" by (simp add: table_inv_def sample_pending_def)
  from failed_job_stranded [OF this _ _ run, of ?r] run show ?thesis by simp
qed

section \<open>Which jobs a pass submits\<close>

text \<open>The pending row a submitted job was claimed from.\<close>

definition claimed_from :: "pg \<Rightarrow> Job \<Rightarrow> row \<Rightarrow> bool" where
  "claimed_from pg job r \<longleftrightarrow> row_id r = job_ID job \<and> row_state r = JobStatePending \<and>
     (\<exists>c d. newLeaseToken c = Inr (job_LeaseToken job) \<and> scanJob pg (claim_set pg c d (job_LeaseToken job) r) = Inr job)"

lemma claimed_from_job:
  assumes "claimed_from pg job r"
  shows "job_Attempt job = row_attempt r + 1" "job_Task job = row_task r" "job_State job = JobStateRunning"
    "job_ScheduledAt job = row_scheduled_at r" "scan_text pg (row_idempotency_key r) = Inr (job_IdempotencyKey job)"
  using assms by (auto simp: claimed_from_def claim_set_def dest!: scanJob_Inr)

lemma claimed_from_keyed:
  assumes "claimed_from pg job r" and "scan_null pg = Inl e"
  shows "row_idempotency_key r = Some (job_IdempotencyKey job)"
  using claimed_from_job(5) [OF assms(1)] assms(2) by (simp add: scan_text_def split: option.splits)

lemma claim_from_row:
  assumes "ClaimNextJob pg c d tbl = (Inr job, tbl')"
  shows "\<exists>r \<in> set tbl. claimed_from pg job r" and "q \<in> set tbl' \<Longrightarrow> row_state q = JobStatePending \<Longrightarrow> q \<in> set tbl"
proof -
  obtain r tok where r: "newLeaseToken c = Inr tok" "r \<in> set tbl" "claimable c r"
    "scanJob pg (claim_set pg c d tok r) = Inr job"
    "tbl' = map (\<lambda>q. if row_id q = row_id r then claim_set pg c d tok q else q) tbl"
    using assms by (rule ClaimNextJob_Inr)
  have "job_LeaseToken job = tok" "job_ID job = row_id r"
    using scanJob_Inr [OF r(4)] by (simp_all add: claim_set_def scan_text_def)
  then show "\<exists>r \<in> set tbl. claimed_from pg job r"
    using r(1-4) by (intro bexI [of _ r]) (auto simp: claimed_from_def claimable_def)
  show "q \<in> set tbl' \<Longrightarrow> row_state q = JobStatePending \<Longrightarrow> q \<in> set tbl"
    unfolding r(5) by (auto simp: claim_set_def split: if_splits)
qed

lemma claim_loop_from:
  "claim_loop (ClaimNextJob pg) (ReleaseClaim pg) submit d rounds left k tbl p = (e, jobs, tbl', p') \<Longrightarrow>
   job \<in> set jobs \<Longrightarrow> \<exists>r \<in> set tbl. claimed_from pg job r"
proof (induction left arbitrary: k tbl p e jobs tbl' p')
  case (Suc left)
  obtain res tbl1 where cl: "ClaimNextJob pg (rr_claim (rounds k)) d tbl = (res, tbl1)" by fastforce
  obtain j where j: "res = Inr j" and go: "\<not> rr_cancelled (rounds k)"
    using Suc.prems cl by (cases res) (auto split: if_splits)
  obtain b p1 where sub: "submit (rr_submit (rounds k)) j p = (b, p1)" by fastforce
  obtain e' jobs' tbl2 p2 where rest: "claim_loop (ClaimNextJob pg) (ReleaseClaim pg) submit d rounds left (Suc k) tbl1 p1 =
    (e', jobs', tbl2, p2)" by (metis surj_pair)
  have "jobs = j # jobs'" using Suc.prems cl j go sub rest by (cases b) auto
  then consider "job = j" | "job \<in> set jobs'" using Suc.prems(2) by auto
  then show ?case
  proof cases
    case 1
    then show ?thesis using claim_from_row(1) cl j by blast
  next
    case 2
    from Suc.IH [OF rest 2] obtain r where "r \<in> set tbl1" "claimed_from pg job r" by blast
    then show ?thesis using claim_from_row(2) [of pg "rr_claim (rounds k)" d tbl j tbl1 r] cl j
      by (intro bexI [of _ r]) (simp_all add: claimed_from_def)
  qed
qed simp

text \<open>
  A claim that meets a row without idempotency key changes it and then fails to return it: the row is
  running under a lease nobody holds, one attempt is used up.
\<close>

lemma keyless_claim_lost:
  assumes "scan_null pg = Inl e" and "select_claim c tbl = r # rs" and "row_idempotency_key r = None"
    and "newLeaseToken c = Inr tok" and "c_fault c = None"
  shows "\<exists>err. ClaimNextJob pg c d tbl =
    (Inl err, map (\<lambda>q. if row_id q = row_id r then claim_set pg c d tok q else q) tbl) \<and> err \<noteq> ErrJobNotFound"
  using assms by (auto simp: ClaimNextJob_def scanJob_def scan_text_def claim_set_def)

lemma failed_claim_ends_loop:
  assumes "isl (fst (claim (rr_claim (rounds k)) d st))" and "claim_loop claim release submit d rounds left k st p = (e, jobs, st', p')"
  shows "jobs = []"
  using assms by (cases left; cases "claim (rr_claim (rounds k)) d st") (auto split: sum.splits if_splits)

lemma keyless_claim_fails:
  assumes "scan_null pg = Inl e" and "select_claim c tbl = r # rs" and "row_idempotency_key r = None"
  shows "isl (fst (ClaimNextJob pg c d tbl))"
  using assms by (auto simp: ClaimNextJob_def scanJob_def scan_text_def claim_set_def split: sum.split option.split)

text \<open>
  C37: A job that was stored without an idempotency key is never executed: its key column is NULL, which
  the driver does not scan into a Go string, so no pass of the reconciler ever submits it. When such a
  job comes first, the pass submits nothing at all.
\<close>

theorem keyless_job_never_submitted:
  assumes "scan_null pg = Inl e" and "table_inv tbl" and "r \<in> set tbl" and "row_idempotency_key r = None"
    and "reconcile_pg pg cfg c rounds tbl p = (hadWork, jobs, tbl', p')"
  shows "row_id r \<notin> job_ID ` set jobs \<and>
    (\<forall>q qs. select_claim (rr_claim (rounds 0)) (snd (RequeueExpiredRunning c (rc_BatchSize cfg) tbl)) = q # qs \<longrightarrow>
       row_idempotency_key q = None \<longrightarrow> jobs = [])"
proof -
  obtain res tbl1 end' where rq: "RequeueExpiredRunning c (rc_BatchSize cfg) tbl = (res, tbl1)" and inv: "table_inv tbl1"
    and loop: "claim_loop (ClaimNextJob pg) (ReleaseClaim pg) pool_submit (rc_RunningLease cfg) rounds
      (nat (rc_BatchSize cfg)) 0 tbl1 p = (end', jobs, tbl', p')"
    using assms(2,5) by (rule reconcile_pg_parts)
  have "list_all2 same_identity tbl tbl1"
    using row_step_identity [OF RequeueExpiredRunning_rows [OF assms(2), of c "rc_BatchSize cfg"]] rq by simp
  from list_all2_in_left [OF this assms(3)]
  obtain r1 where r1: "r1 \<in> set tbl1" "row_id r1 = row_id r" "row_idempotency_key r1 = None"
    using assms(4) by (auto simp: same_identity_def)
  have "row_id r \<noteq> job_ID job" if job: "job \<in> set jobs" for job
  proof
    assume "row_id r = job_ID job"
    moreover obtain q where q: "q \<in> set tbl1" "claimed_from pg job q" using claim_loop_from [OF loop job] by blast
    ultimately have "q = r1" using table_inv_idD [OF inv q(1) r1(1)] r1(2) by (simp add: claimed_from_def)
    then show False using claimed_from_keyed [OF q(2) assms(1)] r1(3) by simp
  qed
  moreover have "jobs = []" if "select_claim (rr_claim (rounds 0)) tbl1 = q # qs" "row_idempotency_key q = None" for q qs
    by (rule failed_claim_ends_loop [OF keyless_claim_fails [OF assms(1) that] loop])
  ultimately show ?thesis by (auto simp: rq)
qed

theorem keyless_job_never_submitted_witness:
  "let r = sample_pending\<lparr>row_idempotency_key := None\<rparr>;
       q = sample_pending\<lparr>row_id := ''j2'', row_scheduled_at := Some 4000\<rparr>;
       res = reconcile_pg sample_pg sample_recon_config (quiet 9000 []) sample_rounds [r, q] busy_pool
   in fst (snd res) = [] \<and> map row_state (fst (snd (snd res))) = [JobStateRunning, JobStatePending]"
proof -
  let ?r = "sample_pending\<lparr>row_idempotency_key := None\<rparr>" and ?q = "sample_pending\<lparr>row_id := ''j2'', row_scheduled_at := Some 4000\<rparr>"
  let ?run = "reconcile_pg sample_pg sample_recon_config (quiet 9000 []) sample_rounds [?r, ?q] busy_pool"
  have null: "scan_null sample_pg = Inl ''cannot scan NULL into *string''" by (simp add: sample_pg_def)
  have inv: "table_inv [?r, ?q]" by (simp add: table_inv_def sample_pending_def)
  have sel: "select_claim (quiet 9000 [7]) [?r, ?q] = ?r # []" and rq: "snd (RequeueExpiredRunning (quiet 9000 []) 2 [?r, ?q]) = [?r, ?q]"
    by (simp_all add: recon_eval nulls_last_def)
  obtain had jobs tbl' p' where run: "?run = (had, jobs, tbl', p')" by (metis surj_pair)
  from keyless_job_never_submitted [OF null inv _ _ run, of ?r] sel rq
  have "jobs = []" by (simp add: sample_rounds_def sample_recon_config_def New_reconciler_def)
  moreover have "map row_state (fst (snd (snd ?run))) = [JobStateRunning, JobStatePending]"
    by (simp add: recon_eval nulls_last_def scan_text_def sample_pg_def)
  ultimately show ?thesis by (simp add: run Let_def)
qed

text \<open>A loop that ends because nothing is due has submitted all that was.\<close>

lemma claim_loop_drains:
  assumes "\<forall>k. c_locked (rr_claim (rounds k)) = locked" and "\<forall>k. c_db_now (rr_claim (rounds k)) \<le> c_db_now (rr_claim (rounds (Suc k)))"
  shows "table_inv tbl \<Longrightarrow> claim_loop (ClaimNextJob pg) (ReleaseClaim pg) submit d rounds left k tbl p = (NoneDue, jobs, tbl', p') \<Longrightarrow>
    r \<in> set tbl \<Longrightarrow> claimable (rr_claim (rounds k)) r \<Longrightarrow> row_id r \<in> job_ID ` set jobs"
proof (induction left arbitrary: k tbl p jobs)
  case (Suc left)
  obtain res tbl1 where cl: "ClaimNextJob pg (rr_claim (rounds k)) d tbl = (res, tbl1)" by fastforce
  have "res \<noteq> Inl ErrJobNotFound" using claim_NoneDue(2) [of pg "rr_claim (rounds k)" d tbl tbl1] cl Suc.prems(3,4) by auto
  then obtain j where j: "res = Inr j" and go: "\<not> rr_cancelled (rounds k)"
    using Suc.prems(2) cl by (cases res) (auto split: if_splits)
  obtain b p1 where sub: "submit (rr_submit (rounds k)) j p = (b, p1)" by fastforce
  have b: "b" using Suc.prems(2) cl j go sub by (cases b) auto
  obtain jobs' where jobs: "jobs = j # jobs'"
    and rest: "claim_loop (ClaimNextJob pg) (ReleaseClaim pg) submit d rounds left (Suc k) tbl1 p1 = (NoneDue, jobs', tbl', p')"
    using Suc.prems(2) cl j go sub b by (auto split: prod.splits)
  show ?case
  proof (cases "row_id r = job_ID j")
    case False
    have cl': "ClaimNextJob pg (rr_claim (rounds k)) d tbl = (Inr j, tbl1)" using cl j by simp
    have inv1: "table_inv tbl1" by (rule pg_claims.claim_inv [OF Suc.prems(1) cl])
    have "lookup_row (row_id r) tbl1 = Some r"
      using claim_row [OF Suc.prems(1) cl'] False lookup_row_mem [OF Suc.prems(1,3)] by auto
    then have "r \<in> set tbl1" using lookup_row_Some by blast
    moreover have "claimable (rr_claim (rounds (Suc k))) r"
      using Suc.prems(4) assms(1) assms(2) [rule_format, of k] by (auto simp: claimable_def split: option.splits)
    ultimately show ?thesis using Suc.IH [OF inv1 rest] jobs by simp
  qed (simp add: jobs)
qed simp



text \<open>A pass never changes what identifies a row.\<close>

lemma identity_trans: "list_all2 same_identity xs ys \<Longrightarrow> list_all2 same_identity ys zs \<Longrightarrow> list_all2 same_identity xs zs"
  by (rule list_all2_trans [where ?P1.0 = same_identity and ?P2.0 = same_identity]) (auto intro: same_identity_trans)

lemma claim_loop_identity:
  "table_inv tbl \<Longrightarrow> claim_loop (ClaimNextJob pg) (ReleaseClaim pg) submit d rounds left k tbl p = (e, jobs, tbl', p') \<Longrightarrow>
   list_all2 same_identity tbl tbl'"
proof (induction left arbitrary: k tbl p e jobs tbl' p')
  case (Suc left)
  obtain res tbl1 where cl: "ClaimNextJob pg (rr_claim (rounds k)) d tbl = (res, tbl1)" by fastforce
  have id1: "list_all2 same_identity tbl tbl1"
    using row_step_identity [OF ClaimNextJob_rows [OF Suc.prems(1), of pg "rr_claim (rounds k)" d]] cl by simp
  have rel: "list_all2 same_identity tbl (snd (ReleaseClaim pg c job reason tbl1))" for c job reason
    by (rule identity_trans [OF id1 row_step_identity [OF ReleaseClaim_rows]])
  note ih = identity_trans [OF id1 Suc.IH [OF pg_claims.claim_inv [OF Suc.prems(1) cl]]]
  show ?case
    using Suc.prems(2) cl id1 rel ih
    by (auto simp: list_all2_refl split: if_splits sum.splits prod.splits bool.splits)
qed (simp add: list_all2_refl)

text \<open>A job that was pending before the pass and submitted by it: what the worker gets, and the row it leaves.\<close>

lemma submitted_job:
  assumes "table_inv tbl" and "reconcile_pg pg cfg c rounds tbl p = (hadWork, jobs, tbl', p')"
    and "r \<in> set tbl" and "row_state r = JobStatePending" and "job \<in> set jobs" and "job_ID job = row_id r"
  shows "claimed_from pg job r"
    and "\<exists>r'. lookup_row (row_id r) tbl' = Some r' \<and> holds_lease job r' \<and> same_identity r r' \<and> table_inv tbl'"
proof -
  obtain res tbl1 end' where rq: "RequeueExpiredRunning c (rc_BatchSize cfg) tbl = (res, tbl1)" and inv: "table_inv tbl1"
    and loop: "claim_loop (ClaimNextJob pg) (ReleaseClaim pg) pool_submit (rc_RunningLease cfg) rounds
      (nat (rc_BatchSize cfg)) 0 tbl1 p = (end', jobs, tbl', p')"
    using assms(1,2) by (rule reconcile_pg_parts)
  have r: "r \<in> set tbl1" using requeue_keeps_idle [OF assms(1,3), of c "rc_BatchSize cfg"] assms(4) rq by simp
  obtain q where q: "q \<in> set tbl1" "claimed_from pg job q" using claim_loop_from [OF loop assms(5)] by blast
  then have "q = r" using table_inv_idD [OF inv q(1) r] assms(6) by (simp add: claimed_from_def)
  then show "claimed_from pg job r" using q(2) by simp
  have inv': "table_inv tbl'" and held: "held_row tbl' job"
    using recon.claim_loop_ok [OF inv loop] assms(5) by (simp_all add: recon.loop_ok_def)
  obtain r' where r': "lookup_row (job_ID job) tbl' = Some r'" "holds_lease job r'"
    using held held_row_lookup [OF inv'] by blast
  from list_all2_in_left [OF claim_loop_identity [OF inv loop] r]
  obtain s where s: "s \<in> set tbl'" "same_identity r s" by blast
  then have "s = r'" using table_inv_idD [OF inv' s(1), of r'] lookup_row_Some [OF r'(1)] assms(6)
    by (simp add: same_identity_def)
  then show "\<exists>r'. lookup_row (row_id r) tbl' = Some r' \<and> holds_lease job r' \<and> same_identity r r' \<and> table_inv tbl'"
    using r' s(2) inv' assms(6) by auto
qed

end
