(* ===== verification/Service.thy ===== *)
theory Service
  imports Store_Correct
begin

unbundle bit_operations_syntax

text \<open>
  The job service of \<open>internal/service/job_service.go\<close>: \<open>Enqueue\<close> with its idempotency key,
  \<open>Cancel\<close>, and the generator of job ids. \<open>Enqueue\<close> takes the two store methods it calls as
  arguments, as the Go struct holds a store interface; what it needs of them is the locale
  \<open>key_store\<close>, interpreted on the PostgreSQL store. Other sessions act between its calls. The
  job handed to the asynchronous Kafka publication is part of the result.
\<close>

section \<open>Model\<close>

datatype service_error =
    LookupKey store_error
  | GenerateID
  | PersistJob store_error
  | LookupDuplicate store_error
  | CancelFailed string store_error

definition newJobID :: "byte list option \<Rightarrow> string option" where
  "newJobID rand_bytes =
    (case rand_bytes of
       None \<Rightarrow> None
     | Some b0 \<Rightarrow>
         (let b1 = b0[6 := (b0 ! 6 AND 0x0f) OR 0x40];
              b2 = b1[8 := (b1 ! 8 AND 0x3f) OR 0x80];
              h = hex_EncodeToString b2
          in Some (take 8 h @ ''-'' @ take 4 (drop 8 h) @ ''-'' @ take 4 (drop 12 h) @ ''-'' @
               take 4 (drop 16 h) @ ''-'' @ drop 20 h)))"

definition shouldPublishImmediately :: "Job \<Rightarrow> instant \<Rightarrow> bool" where
  "shouldPublishImmediately job now = (case job_ScheduledAt job of None \<Rightarrow> True | Some t \<Rightarrow> \<not> now < t)"

text \<open>
  What one run of \<open>Enqueue\<close> meets: its three store calls, the random bytes, the clock, and what
  other sessions do to the store after the first lookup and after a refused insert.
\<close>

record ('c, 'st) enqueue_env =
  q_lookup :: 'c
  q_create :: 'c
  q_again :: 'c
  q_rand :: "byte list option"
  q_now :: instant
  q_after_lookup :: "'st \<Rightarrow> 'st"
  q_after_create :: "'st \<Rightarrow> 'st"

definition with_defaults :: "string \<Rightarrow> instant \<Rightarrow> Job \<Rightarrow> Job" where
  "with_defaults i now job0 = (let
     job1 = job0\<lparr>job_ID := i\<rparr>;
     job2 = (if job_State job1 = '''' then job1\<lparr>job_State := JobStatePending\<rparr> else job1)
   in (if job_ScheduledAt job2 = None then job2\<lparr>job_ScheduledAt := Some now\<rparr> else job2))"

definition Enqueue_new ::
  "('c \<Rightarrow> string \<Rightarrow> 'st \<Rightarrow> store_error + Job) \<Rightarrow> ('c \<Rightarrow> Job \<Rightarrow> 'st \<Rightarrow> (store_error + unit) \<times> 'st) \<Rightarrow>
   ('c, 'st) enqueue_env \<Rightarrow> Job \<Rightarrow> 'st \<Rightarrow> (service_error + string) \<times> Job option \<times> 'st" where
  "Enqueue_new get create q job0 st =
    (case (if job_ID job0 = '''' then newJobID (q_rand q) else Some (job_ID job0)) of
       None \<Rightarrow> (Inl GenerateID, None, st)
     | Some i \<Rightarrow>
         (let job = with_defaults i (q_now q) job0 in
          case create (q_create q) job st of
            (Inl err, st1) \<Rightarrow>
              if err = ErrDuplicateIdempotencyKey \<and> job_IdempotencyKey job \<noteq> '''' then
                (let st2 = q_after_create q st1 in
                 case get (q_again q) (job_IdempotencyKey job) st2 of
                   Inl lookupErr \<Rightarrow> (Inl (LookupDuplicate lookupErr), None, st2)
                 | Inr existing \<Rightarrow> (Inr (job_ID existing), None, st2))
              else (Inl (PersistJob err), None, st1)
          | (Inr _, st1) \<Rightarrow>
              (Inr (job_ID job), if shouldPublishImmediately job (q_now q) then Some job else None, st1)))"

definition Enqueue ::
  "('c \<Rightarrow> string \<Rightarrow> 'st \<Rightarrow> store_error + Job) \<Rightarrow> ('c \<Rightarrow> Job \<Rightarrow> 'st \<Rightarrow> (store_error + unit) \<times> 'st) \<Rightarrow>
   ('c, 'st) enqueue_env \<Rightarrow> Job \<Rightarrow> 'st \<Rightarrow> (service_error + string) \<times> Job option \<times> 'st" where
  "Enqueue get create q job st =
    (if job_IdempotencyKey job \<noteq> '''' then
       (case get (q_lookup q) (job_IdempotencyKey job) st of
          Inr existing \<Rightarrow> (Inr (job_ID existing), None, st)
        | Inl err \<Rightarrow>
            if err \<noteq> ErrJobNotFound then (Inl (LookupKey err), None, st)
            else Enqueue_new get create q job (q_after_lookup q st))
     else Enqueue_new get create q job (q_after_lookup q st))"

definition Cancel_job :: "pg \<Rightarrow> call \<Rightarrow> string \<Rightarrow> table \<Rightarrow> (service_error + unit) \<times> table" where
  "Cancel_job pg c i tbl =
    (case CancelJob pg c i tbl of
       (Inl err, tbl') \<Rightarrow> (Inl (CancelFailed i err), tbl')
     | (Inr _, tbl') \<Rightarrow> (Inr (), tbl'))"

section \<open>What Enqueue needs of its store\<close>

text \<open>
  \<open>owner st k\<close> is the id of the job that holds key \<open>k\<close>, \<open>env\<close> says what other sessions may do.
\<close>

locale key_store =
  fixes get :: "'c \<Rightarrow> string \<Rightarrow> 'st \<Rightarrow> store_error + Job"
    and create :: "'c \<Rightarrow> Job \<Rightarrow> 'st \<Rightarrow> (store_error + unit) \<times> 'st"
    and owner :: "'st \<Rightarrow> string \<Rightarrow> string option"
    and inv :: "'st \<Rightarrow> bool"
    and env :: "('st \<Rightarrow> 'st) \<Rightarrow> bool"
  assumes get_found: "get c k st = Inr job \<Longrightarrow> owner st k = Some (job_ID job)"
    and get_missing: "get c k st = Inl ErrJobNotFound \<Longrightarrow> owner st k = None"
    and create_failed: "create c job st = (Inl e, st') \<Longrightarrow> st' = st"
    and create_inv: "inv st \<Longrightarrow> create c job st = (r, st') \<Longrightarrow> inv st'"
    and create_keeps: "inv st \<Longrightarrow> create c job st = (r, st') \<Longrightarrow> owner st k = Some i \<Longrightarrow> owner st' k = Some i"
    and create_owner: "inv st \<Longrightarrow> create c job st = (Inr u, st') \<Longrightarrow> job_IdempotencyKey job \<noteq> '''' \<Longrightarrow>
      owner st (job_IdempotencyKey job) = None \<and> owner st' (job_IdempotencyKey job) = Some (job_ID job)"
    and env_inv: "env f \<Longrightarrow> inv st \<Longrightarrow> inv (f st)"
    and env_keeps: "env f \<Longrightarrow> inv st \<Longrightarrow> owner st k = Some i \<Longrightarrow> owner (f st) k = Some i"
begin

lemma Enqueue_new_keeps:
  assumes "inv st" and "env (q_after_create q)" and "Enqueue_new get create q job st = (r, pub, st')"
  shows "inv st'" and "owner st k = Some i \<Longrightarrow> owner st' k = Some i"
proof -
  have "inv st' \<and> (owner st k = Some i \<longrightarrow> owner st' k = Some i)"
    using assms(1,3) unfolding Enqueue_new_def Let_def
    by (auto split: option.splits prod.splits sum.splits if_splits
      dest: create_inv [OF assms(1)] create_keeps [OF assms(1)] create_failed intro: env_inv env_keeps assms(1,2))
  then show "inv st'" and "owner st k = Some i \<Longrightarrow> owner st' k = Some i" by simp_all
qed

lemma Enqueue_new_owner:
  assumes "inv st" and "Enqueue_new get create q job st = (Inr i, pub, st')" and "job_IdempotencyKey job \<noteq> ''''"
  shows "owner st' (job_IdempotencyKey job) = Some i" and "owner st (job_IdempotencyKey job) \<noteq> None \<Longrightarrow> pub = None"
proof -
  have key: "job_IdempotencyKey (with_defaults j now job) = job_IdempotencyKey job" for j now
    by (simp add: with_defaults_def Let_def)
  have "owner st' (job_IdempotencyKey job) = Some i \<and> (owner st (job_IdempotencyKey job) \<noteq> None \<longrightarrow> pub = None)"
    using assms(2,3) unfolding Enqueue_new_def Let_def key
    by (auto split: option.splits prod.splits sum.splits if_splits
      dest: get_found create_owner [OF assms(1), unfolded key] simp: key)
  then show "owner st' (job_IdempotencyKey job) = Some i"
    and "owner st (job_IdempotencyKey job) \<noteq> None \<Longrightarrow> pub = None" by simp_all
qed

lemma Enqueue_keeps:
  assumes "inv st" and "env (q_after_lookup q)" and "env (q_after_create q)" and "Enqueue get create q job st = (r, pub, st')"
  shows "inv st'" and "owner st k = Some i \<Longrightarrow> owner st' k = Some i"
proof -
  have inv: "inv (q_after_lookup q st)" by (rule env_inv [OF assms(2,1)])
  consider "st' = st" | "Enqueue_new get create q job (q_after_lookup q st) = (r, pub, st')"
    using assms(4) by (auto simp: Enqueue_def split: sum.splits if_splits)
  then have "inv st' \<and> (owner st k = Some i \<longrightarrow> owner st' k = Some i)"
  proof cases
    case 2
    then show ?thesis using Enqueue_new_keeps [OF inv assms(3) 2] env_keeps [OF assms(2,1)] by blast
  qed (simp add: assms(1))
  then show "inv st'" and "owner st k = Some i \<Longrightarrow> owner st' k = Some i" by simp_all
qed

lemma Enqueue_owner:
  assumes "inv st" and "env (q_after_lookup q)" and "Enqueue get create q job st = (Inr i, pub, st')"
    and "job_IdempotencyKey job \<noteq> ''''"
  shows "owner st' (job_IdempotencyKey job) = Some i" and "owner st (job_IdempotencyKey job) \<noteq> None \<Longrightarrow> pub = None"
proof -
  let ?k = "job_IdempotencyKey job"
  have inv: "inv (q_after_lookup q st)" by (rule env_inv [OF assms(2,1)])
  consider existing where "get (q_lookup q) ?k st = Inr existing" "i = job_ID existing" "pub = None" "st' = st"
    | "get (q_lookup q) ?k st = Inl ErrJobNotFound" "Enqueue_new get create q job (q_after_lookup q st) = (Inr i, pub, st')"
    using assms(3,4) by (auto simp: Enqueue_def split: sum.splits if_splits)
  then have "owner st' ?k = Some i \<and> (owner st ?k \<noteq> None \<longrightarrow> pub = None)"
  proof cases
    case 1
    then show ?thesis using get_found by simp
  next
    case 2
    then show ?thesis using Enqueue_new_owner(1) [OF inv 2(2) assms(4)] get_missing [OF 2(1)] by simp
  qed
  then show "owner st' ?k = Some i" and "owner st ?k \<noteq> None \<Longrightarrow> pub = None" by simp_all
qed

lemma Enqueue_twice:
  assumes "inv st" and "env (q_after_lookup q)" "env (q_after_create q)" "env (q_after_lookup q')" and "env f"
    and "Enqueue get create q job st = (Inr i, pub, st1)" and "Enqueue get create q' job' (f st1) = (Inr j, pub', st2)"
    and "job_IdempotencyKey job \<noteq> ''''" and "job_IdempotencyKey job' = job_IdempotencyKey job"
    and "env (q_after_create q')"
  shows "j = i" and "pub' = None"
proof -
  let ?k = "job_IdempotencyKey job"
  have inv: "inv st1" and o1: "owner st1 ?k = Some i"
    using Enqueue_keeps(1) [OF assms(1-3,6)] Enqueue_owner(1) [OF assms(1,2,6,8)] .
  then have inv': "inv (f st1)" and o2: "owner (f st1) ?k = Some i"
    using env_inv [OF assms(5)] env_keeps [OF assms(5)] by blast+
  have "owner st2 ?k = Some i" using Enqueue_keeps(2) [OF inv' assms(4,10,7) o2] .
  moreover have "owner st2 ?k = Some j" "owner (f st1) ?k \<noteq> None \<Longrightarrow> pub' = None"
    using Enqueue_owner [OF inv' assms(4,7)] assms(8,9) by simp_all
  ultimately show "j = i" and "pub' = None" using o2 by simp_all
qed

end

section \<open>The PostgreSQL store keeps the contract\<close>

definition key_owner :: "table \<Rightarrow> string \<Rightarrow> string option" where
  "key_owner tbl k = map_option row_id (find (\<lambda>r. row_idempotency_key r = Some k) tbl)"

definition sessions :: "pg \<Rightarrow> (table \<Rightarrow> table) \<Rightarrow> bool" where
  "sessions pg f \<longleftrightarrow> (\<exists>hs. (\<forall>h \<in> set hs. calm h) \<and> f = fold (store_step pg) hs)"

lemma key_owner_append: "key_owner (tbl @ new) k = (case key_owner tbl k of None \<Rightarrow> key_owner new k | Some i \<Rightarrow> Some i)"
  by (induction tbl) (auto simp: key_owner_def)

lemma key_owner_same: "list_all2 same_identity tbl tbl' \<Longrightarrow> key_owner tbl' k = key_owner tbl k"
  by (induction rule: list_all2_induct) (auto simp: key_owner_def same_identity_def)

lemma row_steps_identity: "row_step\<^sup>*\<^sup>* r q \<Longrightarrow> same_identity r q"
  by (induction rule: rtranclp_induct) (auto simp: row_step_def intro: same_identity_trans)

lemma sessions_keep:
  assumes "sessions pg f" and "table_inv tbl"
  shows "table_inv (f tbl)" and "key_owner tbl k = Some i \<Longrightarrow> key_owner (f tbl) k = Some i"
proof -
  obtain hs where hs: "\<forall>h \<in> set hs. calm h" "f = fold (store_step pg) hs" using assms(1) by (auto simp: sessions_def)
  then show "table_inv (f tbl)" using table_inv_calm_run [OF assms(2) hs(1)] by simp
  obtain tbl0 new where "f tbl = tbl0 @ new" "list_all2 row_step\<^sup>*\<^sup>* tbl tbl0"
    using calm_run_rows [OF assms(2) hs(1), of pg] hs(2) by blast
  moreover from this(2) have "list_all2 same_identity tbl tbl0" by (rule list_all2_mono) (rule row_steps_identity)
  ultimately show "key_owner tbl k = Some i \<Longrightarrow> key_owner (f tbl) k = Some i"
    by (simp add: key_owner_append key_owner_same)
qed

lemma CreateJob_owner:
  assumes "CreateJob pg c job tbl = (Inr u, tbl')" and "job_IdempotencyKey job \<noteq> ''''"
  shows "key_owner tbl (job_IdempotencyKey job) = None \<and> key_owner tbl' (job_IdempotencyKey job) = Some (job_ID job)"
proof -
  have "CreateJob pg c job tbl = (Inr (), tbl')" using assms(1) by simp
  then obtain r where ins: "insert_row r tbl = Inr tbl'"
    and r: "row_id r = job_ID job" "row_idempotency_key r = Some (job_IdempotencyKey job)"
    using assms(2) by (elim CreateJob_Inr) (simp add: row_of_job_def nullableString_def)
  then have "\<forall>q \<in> set tbl. row_idempotency_key q \<noteq> Some (job_IdempotencyKey job)" "tbl' = tbl @ [r]"
    by (simp_all add: insert_row_Inr)
  moreover from this(1) have "key_owner tbl (job_IdempotencyKey job) = None"
    unfolding key_owner_def by (simp add: find_None)
  ultimately show ?thesis by (simp add: key_owner_append) (simp add: key_owner_def r)
qed

lemma scanJob_not_missing: "scanJob pg r \<noteq> Inl ErrJobNotFound"
  by (auto simp: scanJob_def scan_text_def split: sum.splits option.splits)

interpretation pg_keys: key_store "GetJobByIdempotencyKey pg" "CreateJob pg" key_owner table_inv "sessions pg" for pg
proof
  show "GetJobByIdempotencyKey pg c k tbl = Inr job \<Longrightarrow> key_owner tbl k = Some (job_ID job)" for c k tbl job
    by (auto simp: GetJobByIdempotencyKey_def query_row_def key_owner_def split: option.splits dest: scanJob_Inr)
  show "GetJobByIdempotencyKey pg c k tbl = Inl ErrJobNotFound \<Longrightarrow> key_owner tbl k = None" for c k tbl
    by (auto simp: GetJobByIdempotencyKey_def query_row_def key_owner_def split: option.splits dest: scanJob_not_missing [THEN notE])
  show "CreateJob pg c job tbl = (Inl e, tbl') \<Longrightarrow> tbl' = tbl" for c job tbl e tbl'
    by (auto simp: CreateJob_def Let_def split: sum.splits if_splits)
  show "table_inv tbl \<Longrightarrow> CreateJob pg c job tbl = (r, tbl') \<Longrightarrow> table_inv tbl'" for c job tbl r tbl'
    by (metis snd_conv table_inv_CreateJob)
  show "CreateJob pg c job tbl = (r, tbl') \<Longrightarrow> key_owner tbl k = Some i \<Longrightarrow> key_owner tbl' k = Some i" for c job tbl r tbl' k i
    using CreateJob_extends [of pg c job tbl] by (auto simp: key_owner_append)
qed (use CreateJob_owner sessions_keep in blast)+

section \<open>Properties\<close>

text \<open>
  C6: Enqueue is idempotent under its key: whatever other sessions do between and during two
  successful calls with the same non-empty key, both return the same job id, and only the first
  publishes anything.
\<close>

theorem enqueue_idempotent:
  assumes "table_inv tbl" and "sessions pg (q_after_lookup q)" "sessions pg (q_after_create q)"
    and "sessions pg (q_after_lookup q')" "sessions pg (q_after_create q')" and "sessions pg others"
    and "Enqueue (GetJobByIdempotencyKey pg) (CreateJob pg) q job tbl = (Inr i, pub, tbl1)"
    and "Enqueue (GetJobByIdempotencyKey pg) (CreateJob pg) q' job' (others tbl1) = (Inr j, pub', tbl2)"
    and "job_IdempotencyKey job \<noteq> ''''" and "job_IdempotencyKey job' = job_IdempotencyKey job"
  shows "j = i \<and> pub' = None"
  using pg_keys.Enqueue_twice [OF assms(1-4,6-10,5)] by blast

definition quiet_env :: "instant \<Rightarrow> byte list \<Rightarrow> (call, table) enqueue_env" where
  "quiet_env now bs = \<lparr>q_lookup = quiet now [], q_create = quiet now [], q_again = quiet now [], q_rand = Some bs,
     q_now = now, q_after_lookup = id, q_after_create = id\<rparr>"

lemma quiet_env_simps [simp]:
  "q_now (quiet_env t bs) = t" "q_after_lookup (quiet_env t bs) = id" "q_after_create (quiet_env t bs) = id"
  by (simp_all add: quiet_env_def)

lemma sessions_id [simp]: "sessions pg id"
  unfolding sessions_def by (intro exI [of _ "[]"]) (simp add: fun_eq_iff)

definition keyed_job :: Job where
  "keyed_job = zero_Job\<lparr>job_IdempotencyKey := ''k'', job_ID := ''j1''\<rparr>"

definition keyed_row :: row where
  "keyed_row = row_of_job sample_pg (keyed_job\<lparr>job_State := JobStatePending, job_ScheduledAt := Some 5000,
     job_CreatedAt := 5000, job_UpdatedAt := 5000\<rparr>)"

definition claimed_row :: row where
  "claimed_row = claim_set sample_pg (quiet 6000 [1]) 1000 (hex_EncodeToString [1]) keyed_row"

lemmas enqueue_eval = Enqueue_def Enqueue_new_def GetJobByIdempotencyKey_def query_row_def keyed_job_def zero_Job_def
  quiet_env_def with_defaults_def CreateJob_def insert_row_def row_of_job_def sample_pg_def nullableString_def
  shouldPublishImmediately_def keyed_row_def

lemma keyed_enqueued:
  "Enqueue (GetJobByIdempotencyKey sample_pg) (CreateJob sample_pg) (quiet_env 5000 []) keyed_job [] =
     (Inr ''j1'', Some (with_defaults ''j1'' 5000 keyed_job), [keyed_row])"
  "fold (store_step sample_pg) [(quiet 6000 [1], OpClaim 1000)] [keyed_row] = [claimed_row]"
  "Enqueue (GetJobByIdempotencyKey sample_pg) (CreateJob sample_pg) (quiet_env 7000 []) keyed_job [claimed_row] =
     (Inr ''j1'', None, [claimed_row])"
  by (simp_all add: enqueue_eval ClaimNextJob_def newLeaseToken_def select_claim_def claimable_def claimed_row_def
    claim_set_def scanJob_def)

theorem enqueue_idempotent_witness:
  "let claim = fold (store_step sample_pg) [(quiet 6000 [1], OpClaim 1000)];
       en = Enqueue (GetJobByIdempotencyKey sample_pg) (CreateJob sample_pg);
       tbl1 = snd (snd (en (quiet_env 5000 []) keyed_job []))
   in fst (snd (en (quiet_env 7000 []) keyed_job (claim tbl1))) = None"
proof -
  let ?claim = "fold (store_step sample_pg) [(quiet 6000 [1], OpClaim 1000)]"
  have s: "sessions sample_pg ?claim" "\<And>t. sessions sample_pg (q_after_lookup (quiet_env t []))"
    "\<And>t. sessions sample_pg (q_after_create (quiet_env t []))"
    unfolding sessions_def by (rule exI, rule conjI [rotated], rule refl, simp add: calm_def)
      (simp_all add: quiet_env_def flip: sessions_def)
  have "job_IdempotencyKey keyed_job \<noteq> ''''" by (simp add: keyed_job_def)
  with enqueue_idempotent [OF table_inv_Nil s(2,3,2,3,1) keyed_enqueued(1) _ this refl] keyed_enqueued(2,3)
  have "None = (None :: Job option) \<and> ''j1'' = ''j1''" by metis
  then show ?thesis by (simp only: keyed_enqueued Let_def fst_conv snd_conv)
qed

lemma Enqueue_new_cases:
  assumes "Enqueue_new (GetJobByIdempotencyKey pg) (CreateJob pg) q job tbl = (r, pub, tbl')" and "q_after_create q = id"
  shows "(tbl' = tbl \<and> pub = None) \<or>
    (\<exists>i. r = Inr i \<and> CreateJob pg (q_create q) (with_defaults i (q_now q) job) tbl = (Inr (), tbl') \<and>
       pub = (if shouldPublishImmediately (with_defaults i (q_now q) job) (q_now q)
              then Some (with_defaults i (q_now q) job) else None))"
proof (cases "if job_ID job = '''' then newJobID (q_rand q) else Some (job_ID job)")
  case (Some i)
  have id: "job_ID (with_defaults i (q_now q) job) = i" by (simp add: with_defaults_def Let_def)
  obtain res st1 where cr: "CreateJob pg (q_create q) (with_defaults i (q_now q) job) tbl = (res, st1)" by fastforce
  show ?thesis
  proof (cases res)
    case (Inl e)
    then have "st1 = tbl" using cr by (auto dest: pg_keys.create_failed)
    then show ?thesis using assms Some cr Inl by (auto simp: Enqueue_new_def Let_def split: sum.splits if_splits)
  next
    case (Inr u)
    then show ?thesis using assms(1) Some cr by (auto simp: Enqueue_new_def Let_def id)
  qed
qed (use assms in \<open>simp add: Enqueue_new_def\<close>)

text \<open>
  Left alone, Enqueue either leaves the table as it was and publishes nothing (the key is
  taken, or something failed and the error is returned), or it appends exactly one row and
  returns its id. The row is pending unless the caller chose a state, has a scheduled time, and
  the job is handed to Kafka just when that time is not in the future.
\<close>

theorem enqueue_effect:
  assumes "Enqueue (GetJobByIdempotencyKey pg) (CreateJob pg) q job tbl = (r, pub, tbl')"
    and "q_after_lookup q = id" and "q_after_create q = id"
  shows "(tbl' = tbl \<and> pub = None) \<or>
    (\<exists>row. r = Inr (row_id row) \<and> tbl' = tbl @ [row] \<and>
       row_state row = (if job_State job = '''' then JobStatePending else job_State job) \<and>
       (\<exists>t. row_scheduled_at row = Some (stored pg t) \<and> t = (case job_ScheduledAt job of None \<Rightarrow> q_now q | Some t \<Rightarrow> t) \<and>
         (pub = None \<longleftrightarrow> q_now q < t)))"
proof -
  consider "tbl' = tbl" "pub = None"
    | "Enqueue_new (GetJobByIdempotencyKey pg) (CreateJob pg) q job tbl = (r, pub, tbl')"
    using assms(1,2) by (auto simp: Enqueue_def split: sum.splits if_splits)
  then show ?thesis
  proof cases
    case 2
    from Enqueue_new_cases [OF this assms(3)] show ?thesis
    proof (elim disjE exE conjE)
      fix i assume i: "r = Inr i" "CreateJob pg (q_create q) (with_defaults i (q_now q) job) tbl = (Inr (), tbl')"
        "pub = (if shouldPublishImmediately (with_defaults i (q_now q) job) (q_now q)
          then Some (with_defaults i (q_now q) job) else None)"
      obtain row where row: "insert_row row tbl = Inr tbl'" "row_id row = i"
        "row_state row = job_State (with_defaults i (q_now q) job)"
        "row_scheduled_at row = map_option (stored pg) (job_ScheduledAt (with_defaults i (q_now q) job))"
        using i(2) by (elim CreateJob_Inr) (simp add: row_of_job_def with_defaults_def Let_def)
      have "tbl' = tbl @ [row]" using row(1) by (simp add: insert_row_Inr)
      then show ?thesis using i(1,3) row(2-)
        by (auto simp: with_defaults_def Let_def shouldPublishImmediately_def split: option.splits)
    qed simp
  qed simp
qed

theorem enqueue_effect_witness:
  "\<exists>row. snd (snd (Enqueue (GetJobByIdempotencyKey sample_pg) (CreateJob sample_pg) (quiet_env 5000 []) keyed_job [])) = [row] \<and>
     row_id row = ''j1'' \<and> row_state row = JobStatePending \<and> row_scheduled_at row = Some 5000"
  using enqueue_effect [OF keyed_enqueued(1) quiet_env_simps(2,3)] unfolding keyed_enqueued(1)
  by (auto simp: keyed_job_def zero_Job_def sample_pg_def)

text \<open>All of the row a new job gets, besides its times.\<close>

lemma Enqueue_row:
  assumes "Enqueue (GetJobByIdempotencyKey pg) (CreateJob pg) q job tbl = (Inr i, pub, tbl')"
    and "q_after_lookup q = id" and "q_after_create q = id" and "tbl' \<noteq> tbl"
  obtains row where "tbl' = tbl @ [row]" "row_id row = i" "row_state row = (if job_State job = '''' then JobStatePending else job_State job)"
    "row_attempt row = job_Attempt job" "row_task row = job_Task job" "row_idempotency_key row = nullableString (job_IdempotencyKey job)"
proof -
  have "Enqueue_new (GetJobByIdempotencyKey pg) (CreateJob pg) q job tbl = (Inr i, pub, tbl')"
    using assms(1,2,4) by (auto simp: Enqueue_def split: sum.splits if_splits)
  from Enqueue_new_cases [OF this assms(3)] assms(4)
  have cr: "CreateJob pg (q_create q) (with_defaults i (q_now q) job) tbl = (Inr (), tbl')" by auto
  obtain row where row: "insert_row row tbl = Inr tbl'" "row_id row = i"
    "row_state row = (if job_State job = '''' then JobStatePending else job_State job)"
    "row_attempt row = job_Attempt job" "row_task row = job_Task job" "row_idempotency_key row = nullableString (job_IdempotencyKey job)"
    using cr by (elim CreateJob_Inr) (simp add: row_of_job_def with_defaults_def Let_def)
  then show ?thesis using that [of row] by (simp add: insert_row_Inr)
qed

text \<open>
  A client that repeats an Enqueue it just made, as idempotency keys are meant for, gets an
  error as long as no worker has claimed the job: the driver refuses the NULL lease token of the
  pending row. Nothing is written or published by the repetition.
\<close>

theorem enqueue_retry_unreadable:
  assumes "scan_null pg = Inl e" and "job_IdempotencyKey job \<noteq> ''''" and "job_LeaseToken job = ''''"
    and "Enqueue (GetJobByIdempotencyKey pg) (CreateJob pg) q job tbl = (Inr i, pub, tbl1)" and "tbl1 \<noteq> tbl"
    and "q_after_lookup q = id" "q_after_create q = id" and "c_fault (q_lookup q') = None"
  shows "Enqueue (GetJobByIdempotencyKey pg) (CreateJob pg) q' job tbl1 = (Inl (LookupKey (ErrDriver (OtherError e))), None, tbl1)"
proof -
  let ?k = "job_IdempotencyKey job"
  have "Enqueue_new (GetJobByIdempotencyKey pg) (CreateJob pg) q job tbl = (Inr i, pub, tbl1)"
    using assms(4-6) by (auto simp: Enqueue_def split: sum.splits if_splits)
  then have "CreateJob pg (q_create q) (with_defaults i (q_now q) job) tbl = (Inr (), tbl1)"
    using Enqueue_new_cases [OF _ assms(7)] assms(5) by blast
  then obtain r where r: "insert_row r tbl = Inr tbl1" "row_idempotency_key r = Some ?k" "row_lease_token r = None"
    using assms(2,3) by (elim CreateJob_Inr) (simp add: row_of_job_def nullableString_def with_defaults_def Let_def)
  then have "tbl1 = tbl @ [r]" "\<forall>q \<in> set tbl. row_idempotency_key q \<noteq> Some ?k" by (simp_all add: insert_row_Inr)
  then have "find (\<lambda>r. row_idempotency_key r = Some ?k) tbl1 = Some r"
    using r(2) by (induction tbl arbitrary: tbl1) simp_all
  moreover have "scanJob pg r = Inl (ErrDriver (OtherError e))" using r(2,3) assms(1) by (simp add: scanJob_def scan_text_def)
  ultimately show ?thesis
    using assms(2,8) by (simp add: Enqueue_def GetJobByIdempotencyKey_def query_row_def)
qed

theorem enqueue_retry_unreadable_witness:
  "Enqueue (GetJobByIdempotencyKey sample_pg) (CreateJob sample_pg) (quiet_env 6000 []) keyed_job [keyed_row] =
     (Inl (LookupKey (ErrDriver (OtherError ''cannot scan NULL into *string''))), None, [keyed_row])"
  by (rule enqueue_retry_unreadable [OF _ _ _ keyed_enqueued(1)])
    (simp_all add: sample_pg_def keyed_job_def zero_Job_def quiet_env_def)

section \<open>Job ids\<close>

definition variant_digits :: "char set" where
  "variant_digits = set ''89ab''"

lemma hex_EncodeToString_nth:
  "i < length bs \<Longrightarrow> hex_EncodeToString bs ! (2 * i) = hex_digit (unat (bs ! i) div 16)"
  by (induction bs arbitrary: i) (auto simp: nth_Cons split: nat.split)

lemma high_nibble: "unat (b :: byte) div 16 = unat (drop_bit 4 b)"
  by (simp add: drop_bit_eq_div unat_div_distrib)

lemma version_nibble: "unat ((b AND 0x0f) OR 0x40 :: byte) div 16 = 4"
  unfolding high_nibble by simp

lemma variant_nibble: "unat ((b AND 0x3f) OR 0x80 :: byte) div 16 \<in> {8, 9, 10, 11}"
proof -
  let ?x = "drop_bit 4 b AND 3 :: byte"
  have "unat ?x \<le> 3" using word_and_le1 [of "drop_bit 4 b" 3] by (simp add: word_le_nat_alt)
  then have "unat ?x \<in> {0, 1, 2, 3}" by auto
  then have "?x \<in> {0, 1, 2, 3}" by (auto simp: word_unat_eq_iff)
  then have "unat (?x OR 8) \<in> {8, 9, 10, 11}" by (elim insertE) simp_all
  then show ?thesis unfolding high_nibble by simp
qed

text \<open>The bytes with the version and variant bits of a UUID set.\<close>

definition uuid_bytes :: "byte list \<Rightarrow> byte list" where
  "uuid_bytes b = (b[6 := (b ! 6 AND 0x0f) OR 0x40])[8 := (b ! 8 AND 0x3f) OR 0x80]"

lemma newJobID_eq:
  "newJobID (Some b) = (let h = hex_EncodeToString (uuid_bytes b) in
     Some (take 8 h @ ''-'' @ take 4 (drop 8 h) @ ''-'' @ take 4 (drop 12 h) @ ''-'' @ take 4 (drop 16 h) @ ''-'' @ drop 20 h))"
  by (simp add: newJobID_def uuid_bytes_def Let_def)

lemma dashed_inject:
  assumes "length h = 32" "length h' = 32"
    and "take 8 h @ ''-'' @ take 4 (drop 8 h) @ ''-'' @ take 4 (drop 12 h) @ ''-'' @ take 4 (drop 16 h) @ ''-'' @ drop 20 h =
      take 8 h' @ ''-'' @ take 4 (drop 8 h') @ ''-'' @ take 4 (drop 12 h') @ ''-'' @ take 4 (drop 16 h') @ ''-'' @ drop 20 h'"
  shows "h = h'"
proof -
  have step: "take 4 (drop k x) @ drop (k + 4) x = drop k x" for k and x :: string
    by (metis add.commute append_take_drop_id drop_drop)
  have split: "x = take 8 x @ take 4 (drop 8 x) @ take 4 (drop 12 x) @ take 4 (drop 16 x) @ drop 20 x" for x :: string
    using step [of 8 x] step [of 12 x] step [of 16 x] by simp
  show ?thesis using assms by (subst split [of h], subst split [of h']) simp
qed

text \<open>
  C40: From sixteen random bytes the generator makes a string of the form of a version 4 UUID: 36
  characters with dashes at the four places, version digit 4 and variant digit 8, 9, a or b; and
  two draws give the same id only when they agree in all but the six fixed bits.
\<close>

theorem new_job_id_uuid4:
  assumes "length b = 16" and "length b' = 16" and "newJobID (Some b) = Some s"
  shows "length s = 36 \<and> (\<forall>i \<in> {8, 13, 18, 23}. s ! i = CHR ''-'') \<and> s ! 14 = CHR ''4'' \<and> s ! 19 \<in> variant_digits \<and>
    (newJobID (Some b') = Some s \<longleftrightarrow> uuid_bytes b' = uuid_bytes b)"
proof -
  define h where "h = hex_EncodeToString (uuid_bytes b)"
  have len: "length (uuid_bytes b) = 16" "length (uuid_bytes b') = 16" using assms by (simp_all add: uuid_bytes_def)
  then have lh: "length h = 32" by (simp add: h_def)
  have s: "s = take 8 h @ ''-'' @ take 4 (drop 8 h) @ ''-'' @ take 4 (drop 12 h) @ ''-'' @ take 4 (drop 16 h) @ ''-'' @ drop 20 h"
    using assms(3) by (simp add: newJobID_eq Let_def h_def)
  have "h ! 12 = CHR ''4''" "h ! 16 \<in> variant_digits"
    using hex_EncodeToString_nth [of 6 "uuid_bytes b"] hex_EncodeToString_nth [of 8 "uuid_bytes b"] assms(1) len
      version_nibble [of "b ! 6"] variant_nibble [of "b ! 8"]
    by (auto simp: h_def uuid_bytes_def hex_digit_def variant_digits_def)
  then have "s ! 14 = CHR ''4''" "s ! 19 \<in> variant_digits" by (simp_all add: s lh nth_append)
  moreover have "length s = 36" "\<forall>i \<in> {8, 13, 18, 23}. s ! i = CHR ''-''" by (simp_all add: s lh nth_append)
  moreover have "newJobID (Some b') = Some s \<longleftrightarrow> uuid_bytes b' = uuid_bytes b"
    using dashed_inject [of "hex_EncodeToString (uuid_bytes b')" h] lh len
    by (auto simp: newJobID_eq s h_def Let_def hex_EncodeToString_inject)
  ultimately show ?thesis by simp
qed

theorem new_job_id_uuid4_witness: "\<exists>s. newJobID (Some (replicate 16 0)) = Some s \<and> length s = 36 \<and> s ! 14 = CHR ''4''"
proof -
  have "length (replicate 16 0 :: byte list) = 16" by simp
  moreover obtain s where "newJobID (Some (replicate 16 0)) = Some s" by (simp add: newJobID_eq Let_def)
  ultimately show ?thesis using new_job_id_uuid4 [of "replicate 16 0" "replicate 16 0" s] by simp
qed

end
