(* ===== verification/Base64.thy ===== *)
theory Base64
  imports Conduit_Prelude
begin

text \<open>
  \<open>base64.RawURLEncoding\<close> of the Go library, which the list cursors of the store are written in:
  the URL alphabet \<open>A-Za-z0-9-_\<close> without padding, three bytes as four sextets. The decoder skips line ends and
  accepts any unused bits of the last sextet, as Go's does. The lemma: decoding undoes encoding.
\<close>

definition b64_char :: "nat \<Rightarrow> char" where
  "b64_char n = (if n < 26 then char_of (n + 65) else if n < 52 then char_of (n + 71)
     else if n < 62 then char_of (n - 4) else if n = 62 then CHR ''-'' else CHR ''_'')"

definition b64_val :: "char \<Rightarrow> nat option" where
  "b64_val c = (let n = of_char c :: nat in
     if 65 \<le> n \<and> n \<le> 90 then Some (n - 65) else if 97 \<le> n \<and> n \<le> 122 then Some (n - 71)
     else if 48 \<le> n \<and> n \<le> 57 then Some (n + 4) else if n = 45 then Some 62 else if n = 95 then Some 63 else None)"

fun b64_enc :: "nat list \<Rightarrow> nat list" where
  "b64_enc (a # b # c # s) = [a div 4, (a mod 4) * 16 + b div 16, (b mod 16) * 4 + c div 64, c mod 64] @ b64_enc s"
| "b64_enc [a, b] = [a div 4, (a mod 4) * 16 + b div 16, (b mod 16) * 4]"
| "b64_enc [a] = [a div 4, (a mod 4) * 16]"
| "b64_enc [] = []"

fun b64_dec :: "nat list \<Rightarrow> nat list option" where
  "b64_dec (w # x # y # z # s) =
     map_option (\<lambda>r. [w * 4 + x div 16, (x mod 16) * 16 + y div 4, (y mod 4) * 64 + z] @ r) (b64_dec s)"
| "b64_dec [w, x, y] = Some [w * 4 + x div 16, (x mod 16) * 16 + y div 4]"
| "b64_dec [w, x] = Some [w * 4 + x div 16]"
| "b64_dec [w] = None"
| "b64_dec [] = Some []"

definition RawURLEncoding_EncodeToString :: "string \<Rightarrow> string" where
  "RawURLEncoding_EncodeToString s = map b64_char (b64_enc (map of_char s))"

definition RawURLEncoding_DecodeString :: "string \<Rightarrow> string option" where
  "RawURLEncoding_DecodeString s =
     (let vs = map b64_val (filter (\<lambda>c. c \<noteq> CHR 0x0A \<and> c \<noteq> CHR 0x0D) s)
      in if None \<in> set vs then None else map_option (map char_of) (b64_dec (map the vs)))"

lemma b64_dec_enc: "\<forall>a \<in> set s. a < 256 \<Longrightarrow> b64_dec (b64_enc s) = Some s"
proof (induction s rule: b64_enc.induct)
  case (1 a b c s)
  have b: "b div 16 < 16" and c: "c div 64 < 4" using 1(2) by (simp_all add: less_mult_imp_div_less)
  have "a div 4 * 4 + ((a mod 4) * 16 + b div 16) div 16 = a" using b by simp
  moreover have "((a mod 4) * 16 + b div 16) mod 16 * 16 + ((b mod 16) * 4 + c div 64) div 4 = b" using b c by simp
  moreover have "((b mod 16) * 4 + c div 64) mod 4 * 64 + c mod 64 = c" using c by simp
  ultimately show ?case using 1 by simp
next
  case (2 a b)
  have b: "b div 16 < 16" using 2 by (simp add: less_mult_imp_div_less)
  then show ?case by simp
qed simp_all

lemma sextets: "p < 4 \<Longrightarrow> q < 16 \<Longrightarrow> p * 16 + q < 64" "p < 16 \<Longrightarrow> q < 4 \<Longrightarrow> p * 4 + q < 64" for p q :: nat
  by simp_all

lemma b64_enc_range: "\<forall>a \<in> set s. a < 256 \<Longrightarrow> v \<in> set (b64_enc s) \<Longrightarrow> v < 64"
proof (induction s rule: b64_enc.induct)
  case (1 a b c s)
  have "a div 4 < 64" "b div 16 < 16" "c div 64 < 4" using 1(2) by (simp_all add: less_mult_imp_div_less)
  then have "a div 4 < 64" "(a mod 4) * 16 + b div 16 < 64" "(b mod 16) * 4 + c div 64 < 64" "c mod 64 < 64"
    by (simp_all add: sextets)
  then show ?case using 1 by auto
next
  case (2 a b)
  have "a div 4 < 64" "b div 16 < 16" using 2 by (simp_all add: less_mult_imp_div_less)
  then have "a div 4 < 64" "(a mod 4) * 16 + b div 16 < 64" "(b mod 16) * 4 < 64"
    using sextets(2) [of "b mod 16" 0] by (simp_all add: sextets)
  then show ?case using 2 by auto
next
  case (3 a)
  have "a div 4 < 64" "(a mod 4) * 16 < 64" using 3 sextets(1) [of "a mod 4" 0] by (simp_all add: less_mult_imp_div_less)
  then show ?case using 3 by auto
qed simp

lemma b64_char_val: "n < 64 \<Longrightarrow> b64_val (b64_char n) = Some n \<and> b64_char n \<noteq> CHR 0x0A \<and> b64_char n \<noteq> CHR 0x0D"
proof -
  assume n: "n < 64"
  have "b64_val (b64_char n) = Some n" using n by (auto simp: b64_val_def b64_char_def Let_def)
  moreover have "b64_val CHR 0x0A = None" "b64_val CHR 0x0D = None" by (simp_all add: b64_val_def)
  ultimately show ?thesis by auto
qed

lemma of_char_256: "(of_char c :: nat) < 256"
  by (metis nat_of_char_less_256)

text \<open>Decoding undoes encoding.\<close>

lemma RawURLEncoding_roundtrip: "RawURLEncoding_DecodeString (RawURLEncoding_EncodeToString s) = Some s"
proof -
  let ?e = "b64_enc (map of_char s)"
  have range: "\<forall>a \<in> set (map of_char s :: nat list). a < 256" using of_char_256 by simp
  have vals: "\<forall>v \<in> set ?e. b64_val (b64_char v) = Some v \<and> b64_char v \<noteq> CHR 0x0A \<and> b64_char v \<noteq> CHR 0x0D"
    using b64_enc_range [OF range] b64_char_val by blast
  then have "filter (\<lambda>c. c \<noteq> CHR 0x0A \<and> c \<noteq> CHR 0x0D) (map b64_char ?e) = map b64_char ?e"
    by (simp add: filter_id_conv)
  moreover have m: "map b64_val (map b64_char ?e) = map Some ?e" using vals by simp
  moreover have "map the (map Some ?e) = ?e" by (simp add: comp_def)
  ultimately show ?thesis
    unfolding RawURLEncoding_DecodeString_def RawURLEncoding_EncodeToString_def Let_def
    by (simp only: b64_dec_enc [OF range]) (auto simp: comp_def)
qed

end
