(* ===== verification/Listing.thy ===== *)
theory Listing
  imports Store_Correct Go_Strings Base64 "HOL-Library.Char_ord" "HOL-Library.List_Lexorder"
begin

text \<open>
  Listing jobs page by page, \<open>ListJobs\<close> of \<open>internal/store/store.go\<close> with its cursors. The
  order of ids is the collation of the database, a parameter \<open>coll\<close> that maps ids to an
  ordered type. The lemmas: a cursor decodes to the position it was made for; following the
  cursors of a table that does not change gives every matching job exactly once, newest first;
  and a page with a row that cannot be read fails as a whole.
\<close>

section \<open>Cursors\<close>

text \<open>\<open>UnixMicro\<close> of an instant, which counts nanoseconds from the year 1.\<close>

definition unix_epoch :: instant where
  "unix_epoch = 62135596800 * Second"

definition UnixMicro :: "instant \<Rightarrow> int" where
  "UnixMicro t = (t - unix_epoch) div 1000"

definition time_UnixMicro :: "int \<Rightarrow> instant" where
  "time_UnixMicro us = unix_epoch + us * 1000"

definition encodeCursor :: "instant \<Rightarrow> string \<Rightarrow> string" where
  "encodeCursor t i = RawURLEncoding_EncodeToString (Itoa (UnixMicro t) @ ''|'' @ i)"

datatype cursor_error = CursorBase64 | CursorMalformed | CursorNumber

definition decodeCursor :: "string \<Rightarrow> cursor_error + instant \<times> string" where
  "decodeCursor c =
     (case RawURLEncoding_DecodeString c of
        None \<Rightarrow> Inl CursorBase64
      | Some raw \<Rightarrow>
          (if CHR ''|'' \<notin> set raw then Inl CursorMalformed
           else let (a, b) = SplitN2 raw CHR ''|''
                in case Atoi a of None \<Rightarrow> Inl CursorNumber | Some micros \<Rightarrow> Inr (time_UnixMicro micros, b)))"

section \<open>Pages\<close>

record ListFilter =
  lf_State :: JobState
  lf_Limit :: int
  lf_Cursor :: string

datatype list_error = InvalidCursor cursor_error | ListStore store_error

definition page_limit :: "int \<Rightarrow> int" where
  "page_limit n = (let limit = (if n \<le> 0 then 50 else n) in if limit > 500 then 500 else limit)"

fun scan_rows :: "pg \<Rightarrow> row list \<Rightarrow> store_error + Job list" where
  "scan_rows pg [] = Inr []"
| "scan_rows pg (r # rs) = (case scanJob pg r of
     Inl err \<Rightarrow> Inl err
   | Inr job \<Rightarrow> (case scan_rows pg rs of Inl err \<Rightarrow> Inl err | Inr jobs \<Rightarrow> Inr (job # jobs)))"

text \<open>The rows of the query: the conditions, the order, and the limit of one row more than a page.\<close>

definition row_key :: "(string \<Rightarrow> 'k :: linorder) \<Rightarrow> row \<Rightarrow> instant \<times> 'k" where
  "row_key coll r = (row_created_at r, coll (row_id r))"

definition list_query :: "(string \<Rightarrow> 'k :: linorder) \<Rightarrow> JobState \<Rightarrow> (instant \<times> string) option \<Rightarrow> int \<Rightarrow> table \<Rightarrow> row list" where
  "list_query coll st after n tbl =
     take (nat n) (rev (sort_key (row_key coll)
       (filter (\<lambda>r. (st = '''' \<or> row_state r = st) \<and>
          (case after of None \<Rightarrow> True | Some (ts, i) \<Rightarrow> row_key coll r < (ts, coll i))) tbl)))"

definition ListJobs :: "pg \<Rightarrow> (string \<Rightarrow> 'k :: linorder) \<Rightarrow> call \<Rightarrow> ListFilter \<Rightarrow> table \<Rightarrow> list_error + Job list \<times> string" where
  "ListJobs pg coll c f tbl =
     (let limit = page_limit (lf_Limit f);
          after = (if lf_Cursor f = '''' then Inr None else map_sum InvalidCursor Some (decodeCursor (lf_Cursor f)))
      in case after of
           Inl err \<Rightarrow> Inl err
         | Inr after \<Rightarrow>
             (case c_fault c of
                Some e \<Rightarrow> Inl (ListStore (ErrDriver e))
              | None \<Rightarrow>
                  (case scan_rows pg (list_query coll (lf_State f) after (limit + 1) tbl) of
                     Inl err \<Rightarrow> Inl (ListStore err)
                   | Inr jobs \<Rightarrow>
                       (case c_fault2 c of
                          Some e \<Rightarrow> Inl (ListStore (ErrDriver e))
                        | None \<Rightarrow>
                            (if int (length jobs) > limit
                             then (let job = jobs ! nat (limit - 1)
                                   in Inr (take (nat limit) jobs, encodeCursor (job_CreatedAt job) (job_ID job)))
                             else Inr (jobs, ''''))))))"

text \<open>A client that follows the cursors, at most \<open>fuel\<close> pages.\<close>

fun list_all_pages :: "nat \<Rightarrow> pg \<Rightarrow> (string \<Rightarrow> 'k :: linorder) \<Rightarrow> call \<Rightarrow> ListFilter \<Rightarrow> table \<Rightarrow> Job list option" where
  "list_all_pages 0 pg coll c f tbl = None"
| "list_all_pages (Suc fuel) pg coll c f tbl =
     (case ListJobs pg coll c f tbl of
        Inl err \<Rightarrow> None
      | Inr (jobs, next) \<Rightarrow>
          (if next = '''' then Some jobs
           else map_option ((@) jobs) (list_all_pages fuel pg coll c (f\<lparr>lf_Cursor := next\<rparr>) tbl)))"

section \<open>The cursor round trip\<close>

lemma SplitN2_append: "sep \<notin> set a \<Longrightarrow> SplitN2 (a @ sep # b) sep = (a, b)"
  by (induction a) auto

lemma Itoa_no_bar: "CHR ''|'' \<notin> set (Itoa n)"
proof -
  have "CHR ''|'' \<notin> set (decimal k)" for k
    using decimal_props [of k] by (auto simp: list_all_iff is_digit_def)
  then show ?thesis by (simp add: Itoa_def)
qed

lemma unix_epoch_aligned: "unix_epoch mod 1000 = 0"
  by (simp add: unix_epoch_def duration_defs)

lemma time_UnixMicro_UnixMicro: "t mod 1000 = 0 \<Longrightarrow> time_UnixMicro (UnixMicro t) = t"
proof -
  assume "t mod 1000 = 0"
  then have "1000 dvd t - unix_epoch" using unix_epoch_aligned by (simp add: dvd_diff mod_eq_0_iff_dvd)
  then have "(t - unix_epoch) div 1000 * 1000 = t - unix_epoch" by simp
  then show ?thesis by (simp add: time_UnixMicro_def UnixMicro_def)
qed

lemma cursor_decodes:
  assumes "t mod 1000 = 0" and "int64_range (UnixMicro t)"
  shows "decodeCursor (encodeCursor t i) = Inr (t, i)"
  using SplitN2_append [OF Itoa_no_bar, of "UnixMicro t" i] Atoi_Itoa [OF assms(2)] time_UnixMicro_UnixMicro [OF assms(1)]
  by (simp add: decodeCursor_def encodeCursor_def RawURLEncoding_roundtrip)

lemma encodeCursor_nonempty: "encodeCursor t i \<noteq> ''''"
proof
  assume "encodeCursor t i = ''''"
  then have "RawURLEncoding_DecodeString '''' = Some (Itoa (UnixMicro t) @ ''|'' @ i)"
    using RawURLEncoding_roundtrip by (simp add: encodeCursor_def) metis
  then show False by (simp add: RawURLEncoding_DecodeString_def)
qed

section \<open>Strictly sorted lists cut at a key\<close>

lemma filter_below_drop:
  assumes "sorted_wrt (\<lambda>a b. f b < f a) xs" and "k < length xs"
  shows "filter (\<lambda>x. f x < (f (xs ! k) :: 'k :: linorder)) xs = drop (Suc k) xs"
  using assms
proof (induction xs arbitrary: k)
  case (Cons x xs)
  show ?case
  proof (cases k)
    case 0
    have "filter (\<lambda>y. f y < f x) xs = xs" using Cons.prems(1) by (simp add: filter_id_conv)
    then show ?thesis using 0 by simp
  next
    case (Suc j)
    then have "\<not> f x < f (xs ! j)" using Cons.prems by (auto dest: nth_mem less_asym)
    then show ?thesis using Suc Cons by simp
  qed
qed simp

definition matching :: "(string \<Rightarrow> 'k :: linorder) \<Rightarrow> JobState \<Rightarrow> table \<Rightarrow> row list" where
  "matching coll st tbl = rev (sort_key (row_key coll) (filter (\<lambda>r. st = '''' \<or> row_state r = st) tbl))"

lemma list_query_matching:
  "list_query coll st after n tbl = take (nat n) (filter (\<lambda>r. case after of None \<Rightarrow> True | Some (ts, i) \<Rightarrow> row_key coll r < (ts, coll i))
     (matching coll st tbl))"
  by (simp add: list_query_def matching_def rev_filter [symmetric] filter_sort conj_commute)

lemma matching_props:
  assumes "table_inv tbl" and "inj coll"
  shows "set (matching coll st tbl) = {r \<in> set tbl. st = '''' \<or> row_state r = st}"
    and "sorted_wrt (\<lambda>a b. row_key coll b < row_key coll a) (matching coll st tbl)"
    and "length (matching coll st tbl) \<le> length tbl"
proof -
  let ?M = "filter (\<lambda>r. st = '''' \<or> row_state r = st) tbl"
  show "set (matching coll st tbl) = {r \<in> set tbl. st = '''' \<or> row_state r = st}" by (auto simp: matching_def)
  show "length (matching coll st tbl) \<le> length tbl" by (simp add: matching_def)
  have "distinct (map row_id tbl)" using assms(1) by (simp add: table_inv_def)
  then have "distinct (map (row_key coll) ?M)"
    using assms(2) by (auto simp: distinct_map row_key_def inj_on_def dest: distinct_filter)
  then have "sorted_wrt (<) (map (row_key coll) (sort_key (row_key coll) ?M))"
    unfolding strict_sorted_iff by (simp add: distinct_map)
  then show "sorted_wrt (\<lambda>a b. row_key coll b < row_key coll a) (matching coll st tbl)"
    by (simp add: matching_def sorted_wrt_rev sorted_wrt_map)
qed

text \<open>The rows of the page that follows the first \<open>k\<close> matching rows.\<close>

definition position :: "row list \<Rightarrow> nat \<Rightarrow> (instant \<times> string) option" where
  "position L k = (if k = 0 then None else Some (row_created_at (L ! (k - 1)), row_id (L ! (k - 1))))"

lemma list_query_position:
  assumes "table_inv tbl" and "inj coll" and "k \<le> length (matching coll st tbl)"
  shows "list_query coll st (position (matching coll st tbl) k) n tbl = take (nat n) (drop k (matching coll st tbl))"
proof (cases k)
  case (Suc j)
  then show ?thesis
    using filter_below_drop [OF matching_props(2) [OF assms(1,2), of st], of j] assms(3)
    by (simp add: list_query_matching position_def row_key_def)
qed (simp add: list_query_matching position_def)

section \<open>Readable tables\<close>

definition listable :: "table \<Rightarrow> bool" where
  "listable tbl \<longleftrightarrow> (\<forall>r \<in> set tbl. row_idempotency_key r \<noteq> None \<and> row_lease_token r \<noteq> None \<and>
     row_created_at r mod 1000 = 0 \<and> int64_range (UnixMicro (row_created_at r)))"

definition job_of :: "pg \<Rightarrow> row \<Rightarrow> Job" where
  "job_of pg r = projr (scanJob pg r)"

lemma scanJob_job_of: "row_idempotency_key r \<noteq> None \<Longrightarrow> row_lease_token r \<noteq> None \<Longrightarrow>
    scanJob pg r = Inr (job_of pg r) \<and> job_CreatedAt (job_of pg r) = row_created_at r \<and> job_ID (job_of pg r) = row_id r"
  by (auto simp: job_of_def scanJob_def scan_text_def)

lemma scan_rows_readable:
  "\<forall>r \<in> set rs. row_idempotency_key r \<noteq> None \<and> row_lease_token r \<noteq> None \<Longrightarrow> scan_rows pg rs = Inr (map (job_of pg) rs)"
proof (induction rs)
  case (Cons r rs)
  then show ?case using scanJob_job_of [of r pg] by simp
qed simp

definition cursor_at :: "row list \<Rightarrow> nat \<Rightarrow> string" where
  "cursor_at L k = (if k = 0 then '''' else encodeCursor (row_created_at (L ! (k - 1))) (row_id (L ! (k - 1))))"

lemma page_limit_pos: "1 \<le> page_limit n" "page_limit n \<le> 500"
  by (simp_all add: page_limit_def Let_def)

lemma ListJobs_page:
  assumes "table_inv tbl" and "inj coll" and "listable tbl" and "c_fault c = None" "c_fault2 c = None"
    and "L = matching coll (lf_State f) tbl" and "k \<le> length L" and "lf_Cursor f = cursor_at L k"
    and "n = nat (page_limit (lf_Limit f))"
  shows "ListJobs pg coll c f tbl = Inr (map (job_of pg) (take n (drop k L)), if length L - k > n then cursor_at L (k + n) else '''')"
proof -
  have sub: "set L \<subseteq> set tbl" using matching_props(1) [OF assms(1,2)] assms(6) by auto
  have after: "(if lf_Cursor f = '''' then Inr None else map_sum InvalidCursor Some (decodeCursor (lf_Cursor f))) = Inr (position L k)"
  proof (cases k)
    case (Suc j)
    then have "L ! j \<in> set tbl" using sub assms(7) by (meson Suc_le_lessD nth_mem subsetD)
    then have "decodeCursor (encodeCursor (row_created_at (L ! j)) (row_id (L ! j))) = Inr (row_created_at (L ! j), row_id (L ! j))"
      using assms(3) by (intro cursor_decodes) (simp_all add: listable_def)
    then show ?thesis using Suc assms(8) by (simp add: cursor_at_def position_def encodeCursor_nonempty)
  qed (use assms(8) in \<open>simp add: cursor_at_def position_def\<close>)
  have rows: "list_query coll (lf_State f) (position L k) (page_limit (lf_Limit f) + 1) tbl = take (Suc n) (drop k L)"
    using list_query_position [OF assms(1,2), of k "lf_State f"] assms(6,7,9) page_limit_pos(1) [of "lf_Limit f"]
    by (simp add: nat_add_distrib)
  have scan: "scan_rows pg (take (Suc n) (drop k L)) = Inr (map (job_of pg) (take (Suc n) (drop k L)))"
    using sub assms(3) by (intro scan_rows_readable) (auto simp: listable_def dest!: in_set_takeD in_set_dropD)
  have n: "page_limit (lf_Limit f) = int n" "0 < n" using assms(9) page_limit_pos(1) [of "lf_Limit f"] by simp_all
  show ?thesis
  proof (cases "length L - k > n")
    case True
    then have "L ! (k + n - 1) \<in> set tbl" using sub n(2) by (intro subsetD [OF sub] nth_mem) simp
    then have "job_CreatedAt (job_of pg (L ! (k + n - 1))) = row_created_at (L ! (k + n - 1)) \<and> job_ID (job_of pg (L ! (k + n - 1))) = row_id (L ! (k + n - 1))"
      using scanJob_job_of assms(3) by (simp add: listable_def)
    then show ?thesis
      using True n after rows scan assms(4,5)
      by (simp add: ListJobs_def cursor_at_def nat_diff_distrib take_map [symmetric] add.commute)
  next
    case False
    then show ?thesis using n after rows scan assms(4,5) by (simp add: ListJobs_def)
  qed
qed

section \<open>Properties\<close>

lemma pages_from:
  assumes "table_inv tbl" and "inj coll" and "listable tbl" and "c_fault c = None" "c_fault2 c = None"
    and "L = matching coll (lf_State f) tbl" and "k \<le> length L" and "lf_Cursor f = cursor_at L k" and "length L - k < fuel"
  shows "list_all_pages fuel pg coll c f tbl = Some (map (job_of pg) (drop k L))"
  using assms(6-)
proof (induction fuel arbitrary: k f)
  case (Suc fuel)
  let ?n = "nat (page_limit (lf_Limit f))"
  note page = ListJobs_page [OF assms(1-5) Suc.prems(1-3) refl, of pg]
  have n: "0 < ?n" using page_limit_pos(1) [of "lf_Limit f"] by simp
  show ?case
  proof (cases "length L - k > ?n")
    case True
    then have "list_all_pages fuel pg coll c (f\<lparr>lf_Cursor := cursor_at L (k + ?n)\<rparr>) tbl = Some (map (job_of pg) (drop (k + ?n) L))"
      using Suc.prems n by (intro Suc.IH) simp_all
    moreover have "cursor_at L (k + ?n) \<noteq> ''''" using n by (simp add: cursor_at_def encodeCursor_nonempty)
    moreover have "take ?n (drop k L) @ drop (k + ?n) L = drop k L"
      by (metis add.commute append_take_drop_id drop_drop)
    ultimately show ?thesis using True page by (simp flip: map_append)
  next
    case False
    then show ?thesis using page by simp
  qed
qed simp

text \<open>
  C12: Listing is complete: on a readable table that does not change, a client that starts without
  cursor and follows the returned cursors reaches the end after at most one page per row, and
  has then received every job in the requested state exactly once, newest first, whatever the
  page size.
\<close>

theorem list_pages_complete:
  assumes "table_inv tbl" and "inj coll" and "listable tbl" and "c_fault c = None" "c_fault2 c = None" and "lf_Cursor f = ''''"
  shows "list_all_pages (Suc (length tbl)) pg coll c f tbl = Some (map (job_of pg) (matching coll (lf_State f) tbl)) \<and>
    set (matching coll (lf_State f) tbl) = {r \<in> set tbl. lf_State f = '''' \<or> row_state r = lf_State f} \<and>
    sorted_wrt (\<lambda>a b. row_key coll b < row_key coll a) (matching coll (lf_State f) tbl)"
  using pages_from [OF assms(1-5) refl, of 0 f "Suc (length tbl)" pg] assms(6) matching_props [OF assms(1,2), of "lf_State f"]
  by (simp add: cursor_at_def le_imp_less_Suc)

text \<open>Two running jobs, listed one per page under the bytewise collation.\<close>

definition list_rows :: table where
  "list_rows = [sample_row\<lparr>row_created_at := unix_epoch\<rparr>,
     sample_row\<lparr>row_id := ''j2'', row_idempotency_key := Some ''k2'', row_created_at := unix_epoch + Second\<rparr>]"

theorem list_pages_complete_witness:
  "\<exists>jobs. list_all_pages 3 sample_pg id (quiet 9000 []) \<lparr>lf_State = '''', lf_Limit = 1, lf_Cursor = ''''\<rparr> list_rows = Some jobs \<and>
     map job_ID jobs = [''j2'', ''j1'']"
proof -
  let ?f = "\<lparr>lf_State = '''', lf_Limit = 1, lf_Cursor = ''''\<rparr>"
  have inv: "table_inv list_rows" by (simp add: list_rows_def table_inv_def)
  have "listable list_rows"
    by (simp add: list_rows_def listable_def UnixMicro_def int64_range_def unix_epoch_def duration_defs)
  from list_pages_complete [OF inv inj_on_id this, of "quiet 9000 []" ?f sample_pg]
  have "list_all_pages (Suc (length list_rows)) sample_pg id (quiet 9000 []) ?f list_rows =
      Some (map (job_of sample_pg) (matching id '''' list_rows))" by simp
  moreover have "matching id '''' list_rows = rev list_rows"
    by (simp add: matching_def list_rows_def row_key_def unix_epoch_def duration_defs)
  moreover have "map job_ID (map (job_of sample_pg) (rev list_rows)) = [''j2'', ''j1'']"
    by (simp add: list_rows_def job_of_def scanJob_def)
  ultimately show ?thesis by (simp add: list_rows_def eval_nat_numeral del: list_all_pages.simps)
qed

text \<open>
  A cursor decodes to the very position it was made for, for every id and every time the
  database can hold (whole microseconds, in the range of an \<open>int64\<close>).
\<close>

theorem cursor_roundtrip:
  assumes "t mod 1000 = 0" and "int64_range (UnixMicro t)"
  shows "decodeCursor (encodeCursor t i) = Inr (t, i)"
  using assms by (rule cursor_decodes)

theorem cursor_roundtrip_witness: "decodeCursor (encodeCursor (unix_epoch + 1000) ''a|b'') = Inr (unix_epoch + 1000, ''a|b'')"
proof -
  have "(unix_epoch + 1000) mod 1000 = 0" by (simp add: unix_epoch_def duration_defs)
  moreover have "int64_range (UnixMicro (unix_epoch + 1000))" by (simp add: UnixMicro_def int64_range_def)
  ultimately show ?thesis by (rule cursor_roundtrip)
qed

lemma scan_rows_Inl: "r \<in> set rs \<Longrightarrow> scanJob pg r = Inl e \<Longrightarrow> \<exists>e'. scan_rows pg rs = Inl e'"
  by (induction rs) (auto split: sum.split)

text \<open>
  A single job without lease token or idempotency key among the rows of a page, as every
  pending job is, makes the whole listing fail.
\<close>

theorem list_fails_on_unreadable:
  assumes "scan_null pg = Inl e" and "c_fault c = None" and "lf_Cursor f = ''''"
    and "r \<in> set (list_query coll (lf_State f) None (page_limit (lf_Limit f) + 1) tbl)"
    and "row_idempotency_key r = None \<or> row_lease_token r = None"
  shows "\<exists>err. ListJobs pg coll c f tbl = Inl (ListStore err)"
proof -
  have "\<exists>err. scanJob pg r = Inl err" using assms(1,5) by (auto simp: scanJob_def scan_text_def split: option.split)
  then obtain err where "scan_rows pg (list_query coll (lf_State f) None (page_limit (lf_Limit f) + 1) tbl) = Inl err"
    using scan_rows_Inl [OF assms(4)] by blast
  then show ?thesis using assms(2,3) by (simp add: ListJobs_def)
qed

theorem list_fails_on_unreadable_witness:
  "\<exists>err. ListJobs sample_pg id (quiet 9000 []) \<lparr>lf_State = JobStatePending, lf_Limit = 0, lf_Cursor = ''''\<rparr> [sample_pending] = Inl (ListStore err)"
proof -
  have "scan_null sample_pg = Inl ''cannot scan NULL into *string''" by (simp add: sample_pg_def)
  from list_fails_on_unreadable [OF this, of "quiet 9000 []" "\<lparr>lf_State = JobStatePending, lf_Limit = 0, lf_Cursor = ''''\<rparr>" sample_pending id "[sample_pending]"]
  show ?thesis by (simp add: list_query_def page_limit_def sample_pending_def)
qed

end
