(* ===== verification/Http_Api.thy ===== *)
theory Http_Api
  imports Service Listing
begin

text \<open>
  The HTTP interface of \<open>internal/api\<close>: the five handlers of \<open>handler.go\<close>, the error envelope of
  \<open>errors.go\<close> and the middleware chain of \<open>middleware.go\<close>. A request is what gin hands to the
  handler: the matched route with its parameters, the query strings, and the result of binding the
  JSON body. The state is the jobs table, the jobs handed to Kafka, the counters, and the levels of
  the request log lines. The lemmas: an error response means that nothing was written, published
  or counted as done and carries the request id; a success means what it says about the table;
  every response has a request id; and a panic becomes a 500 that the request counter misses.
\<close>

section \<open>Model\<close>

datatype resp_body = JobBody Job | PageBody "Job list" string | IDBody string | StatusBody string | ErrorBody string string string

record http_reply =
  rp_Status :: int
  rp_Body :: resp_body

datatype log_level = LevelInfo | LevelWarn | LevelError

record api_state =
  as_table :: table
  as_published :: "Job list"
  as_JobEnqueued :: nat
  as_JobCancelled :: nat
  as_HTTPRequests :: "(string \<times> string \<times> string) list"
  as_log :: "log_level list"

record EnqueueRequest =
  er_IdempotencyKey :: string
  er_Task :: Task
  er_ScheduledAt :: "instant option"
  er_Metadata :: metadata

definition RespondError :: "string \<Rightarrow> int \<Rightarrow> string \<Rightarrow> string \<Rightarrow> http_reply" where
  "RespondError rid status code message = \<lparr>rp_Status = status, rp_Body = ErrorBody code message rid\<rparr>"

subsection \<open>Handlers\<close>

definition EnqueueJob :: "pg \<Rightarrow> (call, table) enqueue_env \<Rightarrow> string + EnqueueRequest \<Rightarrow> string \<Rightarrow> api_state \<Rightarrow> http_reply \<times> api_state" where
  "EnqueueJob pg q bound rid st =
     (case bound of
        Inl err \<Rightarrow> (RespondError rid 400 ''invalid_request'' err, st)
      | Inr request \<Rightarrow>
          (if task_Name (er_Task request) = '''' then (RespondError rid 400 ''invalid_request'' ''task.name is required'', st)
           else let job = zero_Job\<lparr>job_IdempotencyKey := er_IdempotencyKey request, job_Task := er_Task request,
                      job_ScheduledAt := er_ScheduledAt request, job_Metadata := er_Metadata request\<rparr>
                in case Enqueue (GetJobByIdempotencyKey pg) (CreateJob pg) q job (as_table st) of
                     (Inl err, pub, tbl) \<Rightarrow> (RespondError rid 500 ''internal_error'' ''failed to enqueue job'', st\<lparr>as_table := tbl\<rparr>)
                   | (Inr i, pub, tbl) \<Rightarrow>
                       (\<lparr>rp_Status = 201, rp_Body = IDBody i\<rparr>,
                        st\<lparr>as_table := tbl, as_published := as_published st @ (case pub of None \<Rightarrow> [] | Some j \<Rightarrow> [j]),
                           as_JobEnqueued := as_JobEnqueued st + 1\<rparr>)))"

definition respond_job :: "string \<Rightarrow> store_error + Job \<Rightarrow> http_reply" where
  "respond_job rid res =
     (case res of
        Inr job \<Rightarrow> \<lparr>rp_Status = 200, rp_Body = JobBody job\<rparr>
      | Inl err \<Rightarrow> if err = ErrJobNotFound then RespondError rid 404 ''not_found'' ''job not found''
          else RespondError rid 500 ''internal_error'' ''failed to retrieve job'')"

definition GetJobStatus :: "pg \<Rightarrow> call \<Rightarrow> string \<Rightarrow> string \<Rightarrow> api_state \<Rightarrow> http_reply \<times> api_state" where
  "GetJobStatus pg c i rid st = (respond_job rid (GetJob pg c i (as_table st)), st)"

definition GetJobByKey :: "pg \<Rightarrow> call \<Rightarrow> string \<Rightarrow> string \<Rightarrow> api_state \<Rightarrow> http_reply \<times> api_state" where
  "GetJobByKey pg c key rid st =
     (if key = '''' then (RespondError rid 400 ''invalid_request'' ''idempotency key is required'', st)
      else (respond_job rid (GetJobByIdempotencyKey pg c key (as_table st)), st))"

definition known_states :: "JobState set" where
  "known_states = {'''', JobStatePending, JobStateRunning, JobStateCompleted, JobStateFailed, JobStateDead}"

text \<open>The three query strings \<open>state\<close>, \<open>cursor\<close> and \<open>limit\<close>; an absent one is empty.\<close>

definition ListJobs_handler :: "pg \<Rightarrow> (string \<Rightarrow> 'k :: linorder) \<Rightarrow> call \<Rightarrow> string \<Rightarrow> string \<Rightarrow> string \<Rightarrow> string \<Rightarrow> api_state \<Rightarrow>
    http_reply \<times> api_state" where
  "ListJobs_handler pg coll c state cursor limit rid st =
     (let n = (if limit = '''' then Some 0 else Option.bind (Atoi limit) (\<lambda>n. if n < 0 then None else Some n))
      in case n of
           None \<Rightarrow> (RespondError rid 400 ''invalid_request'' ''limit must be a non-negative integer'', st)
         | Some n \<Rightarrow>
             (if state \<notin> known_states
              then (RespondError rid 400 ''invalid_request'' ''state must be one of PENDING, RUNNING, COMPLETED, FAILED, DEAD'', st)
              else case ListJobs pg coll c \<lparr>lf_State = state, lf_Limit = n, lf_Cursor = cursor\<rparr> (as_table st) of
                     Inl err \<Rightarrow> (RespondError rid 500 ''internal_error'' ''failed to list jobs'', st)
                   | Inr (jobs, nextCursor) \<Rightarrow> (\<lparr>rp_Status = 200, rp_Body = PageBody jobs nextCursor\<rparr>, st)))"

definition CancelJob_handler :: "pg \<Rightarrow> call \<Rightarrow> string \<Rightarrow> string \<Rightarrow> api_state \<Rightarrow> http_reply \<times> api_state" where
  "CancelJob_handler pg c i rid st =
     (case Cancel_job pg c i (as_table st) of
        (Inl (CancelFailed _ err), tbl) \<Rightarrow>
          ((if err = ErrJobNotFound then RespondError rid 404 ''not_found'' ''job not found''
            else if err = ErrInvalidTransition then RespondError rid 409 ''invalid_state'' ''job cannot be cancelled in its current state''
            else RespondError rid 500 ''internal_error'' ''failed to cancel job''), st\<lparr>as_table := tbl\<rparr>)
      | (Inl _, tbl) \<Rightarrow> (RespondError rid 500 ''internal_error'' ''failed to cancel job'', st\<lparr>as_table := tbl\<rparr>)
      | (Inr _, tbl) \<Rightarrow>
          (\<lparr>rp_Status = 200, rp_Body = StatusBody ''cancelled''\<rparr>, st\<lparr>as_table := tbl, as_JobCancelled := as_JobCancelled st + 1\<rparr>))"

subsection \<open>Routes\<close>

datatype api_request =
    PostJob "string + EnqueueRequest"
  | GetList string string string
  | GetByKey string
  | GetById string
  | PostCancel string

fun route_label :: "api_request \<Rightarrow> string \<times> string" where
  "route_label (PostJob _) = (''POST'', ''/api/jobs'')"
| "route_label (GetList _ _ _) = (''GET'', ''/api/jobs'')"
| "route_label (GetByKey _) = (''GET'', ''/api/jobs/by-idempotency-key/:key'')"
| "route_label (GetById _) = (''GET'', ''/api/jobs/:id'')"
| "route_label (PostCancel _) = (''POST'', ''/api/jobs/:id/cancel'')"

fun handle_request :: "pg \<Rightarrow> (string \<Rightarrow> 'k :: linorder) \<Rightarrow> call \<Rightarrow> (call, table) enqueue_env \<Rightarrow> api_request \<Rightarrow> string \<Rightarrow> api_state \<Rightarrow>
    http_reply \<times> api_state" where
  "handle_request pg coll c q (PostJob bound) rid st = EnqueueJob pg q bound rid st"
| "handle_request pg coll c q (GetList state cursor limit) rid st = ListJobs_handler pg coll c state cursor limit rid st"
| "handle_request pg coll c q (GetByKey key) rid st = GetJobByKey pg c key rid st"
| "handle_request pg coll c q (GetById i) rid st = GetJobStatus pg c i rid st"
| "handle_request pg coll c q (PostCancel i) rid st = CancelJob_handler pg c i rid st"

subsection \<open>Middleware\<close>

text \<open>\<open>strconv.FormatInt(n, 36)\<close>, for the fallback of \<open>newRequestID\<close>.\<close>

definition digit36 :: "nat \<Rightarrow> char" where
  "digit36 d = (if d < 10 then char_of (48 + d) else char_of (87 + d))"

fun base36 :: "nat \<Rightarrow> string" where
  "base36 n = (if n < 36 then [digit36 n] else base36 (n div 36) @ [digit36 (n mod 36)])"

declare base36.simps [simp del]

definition FormatInt36 :: "int \<Rightarrow> string" where
  "FormatInt36 n = (if n < 0 then CHR ''-'' # base36 (nat (- n)) else base36 (nat n))"

definition newRequestID :: "byte list option \<Rightarrow> int \<Rightarrow> string" where
  "newRequestID rand UnixNano = (case rand of None \<Rightarrow> ''req-'' @ FormatInt36 UnixNano | Some b \<Rightarrow> hex_EncodeToString b)"

text \<open>The request id: the header of the caller, or a new one.\<close>

definition RequestID :: "string \<Rightarrow> byte list option \<Rightarrow> int \<Rightarrow> string" where
  "RequestID header rand UnixNano = (if header = '''' then newRequestID rand UnixNano else header)"

definition RequestLogger :: "int \<Rightarrow> log_level" where
  "RequestLogger status = (if status \<ge> 500 then LevelError else if status \<ge> 400 then LevelWarn else LevelInfo)"

text \<open>
  What a handler does: it replies, or it panics with a value after it may have written a reply.
  \<open>metricsMiddleware\<close> counts after the handler has returned, which a panic skips; \<open>Recovery\<close> lies
  outside of it and turns the panic into a reply.
\<close>

datatype handler_result = Replied http_reply api_state | Panicked string "http_reply option" api_state

definition metricsMiddleware :: "string \<times> string \<Rightarrow> handler_result \<Rightarrow> handler_result" where
  "metricsMiddleware label res =
     (case res of
        Replied r st \<Rightarrow> Replied r (st\<lparr>as_HTTPRequests := as_HTTPRequests st @ [(fst label, snd label, Itoa (rp_Status r))]\<rparr>)
      | Panicked v written st \<Rightarrow> Panicked v written st)"

definition Recovery :: "string \<Rightarrow> handler_result \<Rightarrow> http_reply \<times> api_state" where
  "Recovery rid res =
     (case res of
        Replied r st \<Rightarrow> (r, st)
      | Panicked v written st \<Rightarrow>
          ((case written of Some r \<Rightarrow> r | None \<Rightarrow> RespondError rid 500 ''internal_error'' (''panic: '' @ v)), st))"

text \<open>The chain of \<open>RegisterRoutes\<close>: the id in the response header, the reply, and the new state.\<close>

definition serve :: "string \<Rightarrow> byte list option \<Rightarrow> int \<Rightarrow> string \<times> string \<Rightarrow> (string \<Rightarrow> handler_result) \<Rightarrow> string \<times> http_reply \<times> api_state" where
  "serve header rand UnixNano label handler =
     (let rid = RequestID header rand UnixNano;
          (r, st) = Recovery rid (metricsMiddleware label (handler rid))
      in (rid, r, st\<lparr>as_log := as_log st @ [RequestLogger (rp_Status r)]\<rparr>))"

definition serve_api :: "pg \<Rightarrow> (string \<Rightarrow> 'k :: linorder) \<Rightarrow> call \<Rightarrow> (call, table) enqueue_env \<Rightarrow> string \<Rightarrow> byte list option \<Rightarrow> int \<Rightarrow>
    api_request \<Rightarrow> api_state \<Rightarrow> string \<times> http_reply \<times> api_state" where
  "serve_api pg coll c q header rand UnixNano req st =
     serve header rand UnixNano (route_label req) (\<lambda>rid. case handle_request pg coll c q req rid st of (r, st') \<Rightarrow> Replied r st')"

section \<open>Handlers and the table\<close>

lemma Enqueue_failed:
  assumes "Enqueue (GetJobByIdempotencyKey pg) (CreateJob pg) q job tbl = (Inl err, pub, tbl')"
    and "q_after_lookup q = id" and "q_after_create q = id"
  shows "tbl' = tbl \<and> pub = None"
proof -
  consider "tbl' = tbl" "pub = None"
    | "Enqueue_new (GetJobByIdempotencyKey pg) (CreateJob pg) q job tbl = (Inl err, pub, tbl')"
    using assms(1,2) by (auto simp: Enqueue_def split: sum.splits if_splits)
  then show ?thesis
  proof cases
    case 2
    from Enqueue_new_cases [OF this assms(3)] show ?thesis by auto
  qed simp
qed

lemma query_row_present: "query_row pg c p tbl = Inr job \<Longrightarrow> \<exists>r \<in> set tbl. p r \<and> scanJob pg r = Inr job"
  by (auto simp: query_row_def split: option.splits dest: find_SomeD)


lemma key_found: "GetJobByIdempotencyKey pg c k tbl = Inr job \<Longrightarrow> \<exists>r \<in> set tbl. row_id r = job_ID job"
  unfolding GetJobByIdempotencyKey_def using query_row_present scanJob_Inr by metis

definition new_pending :: "table \<Rightarrow> table \<Rightarrow> string \<Rightarrow> bool" where
  "new_pending tbl tbl' i \<longleftrightarrow> (\<exists>row. tbl' = tbl @ [row] \<and> row_id row = i \<and> i \<notin> row_id ` set tbl \<and>
     row_state row = JobStatePending \<and> row_lease_token row = None)"

lemma Enqueue_new_succeeded:
  assumes "Enqueue_new (GetJobByIdempotencyKey pg) (CreateJob pg) q job tbl = (Inr i, pub, tbl')"
    and "q_after_create q = id" and "job_State job = ''''" and "job_LeaseToken job = ''''"
  shows "new_pending tbl tbl' i \<or> tbl' = tbl \<and> pub = None \<and> (\<exists>r \<in> set tbl. row_id r = i)"
proof (cases "if job_ID job = '''' then newJobID (q_rand q) else Some (job_ID job)")
  case (Some k)
  have id: "job_ID (with_defaults k (q_now q) job) = k" by (simp add: with_defaults_def Let_def)
  obtain res st1 where cr: "CreateJob pg (q_create q) (with_defaults k (q_now q) job) tbl = (res, st1)" by fastforce
  show ?thesis
  proof (cases res)
    case (Inl e)
    then have "st1 = tbl" using cr by (auto dest: pg_keys.create_failed)
    then have "\<exists>key c. (\<exists>ex. GetJobByIdempotencyKey pg c key tbl = Inr ex \<and> job_ID ex = i) \<and> tbl' = tbl \<and> pub = None"
      using assms(1,2) Some cr Inl by (auto simp: Enqueue_new_def Let_def split: sum.splits if_splits)
    then show ?thesis using key_found by blast
  next
    case (Inr u)
    then have "i = k" "CreateJob pg (q_create q) (with_defaults k (q_now q) job) tbl = (Inr (), tbl')"
      using assms(1) Some cr by (auto simp: Enqueue_new_def Let_def id)
    then obtain row where row: "insert_row row tbl = Inr tbl'" "row_id row = i" "row_state row = JobStatePending" "row_lease_token row = None"
      using assms(3,4) by (elim CreateJob_Inr) (simp add: row_of_job_def nullableString_def with_defaults_def Let_def)
    then show ?thesis by (auto simp: insert_row_Inr new_pending_def)
  qed
qed (use assms in \<open>simp add: Enqueue_new_def\<close>)

lemma Enqueue_succeeded:
  assumes "Enqueue (GetJobByIdempotencyKey pg) (CreateJob pg) q job tbl = (Inr i, pub, tbl')"
    and "q_after_lookup q = id" and "q_after_create q = id" and "job_State job = ''''" and "job_LeaseToken job = ''''"
  shows "new_pending tbl tbl' i \<or> tbl' = tbl \<and> pub = None \<and> (\<exists>r \<in> set tbl. row_id r = i)"
proof (cases "GetJobByIdempotencyKey pg (q_lookup q) (job_IdempotencyKey job) tbl")
  case (Inr existing)
  then show ?thesis using assms(1,2) key_found [OF Inr] Enqueue_new_succeeded [OF _ assms(3-5)]
    by (auto simp: Enqueue_def split: if_splits)
next
  case (Inl err)
  then show ?thesis using assms(1,2) Enqueue_new_succeeded [OF _ assms(3-5)]
    by (auto simp: Enqueue_def split: if_splits)
qed

lemma CancelJob_undisturbed:
  assumes "c_between c = id" and "CancelJob pg c i tbl = (res, tbl')"
  shows "(case res of Inl _ \<Rightarrow> tbl' = tbl
    | Inr _ \<Rightarrow> (\<exists>r \<in> set tbl. row_id r = i \<and> CanTransition (row_state r) JobStateDead) \<and>
        tbl' = map (\<lambda>r. if row_id r = i then r\<lparr>row_state := JobStateDead, row_updated_at := stored pg (c_now c)\<rparr> else r) tbl)"
proof (cases "GetJob pg c i tbl")
  case (Inl err)
  then show ?thesis using assms(2) by (auto simp: CancelJob_def)
next
  case (Inr job)
  obtain r where "r \<in> set tbl" "row_id r = i" "scanJob pg r = Inr job"
    using query_row_present Inr unfolding GetJob_def by blast
  then have "\<exists>r \<in> set tbl. row_id r = i \<and> CanTransition (row_state r) JobStateDead"
    if "CanTransition (job_State job) JobStateDead" using scanJob_Inr that by metis
  then show ?thesis using assms Inr by (auto simp: CancelJob_def update_where_def split: if_splits option.splits)
qed

section \<open>The contract\<close>

text \<open>No other session acts while the request is served.\<close>

definition alone :: "call \<Rightarrow> (call, table) enqueue_env \<Rightarrow> bool" where
  "alone c q \<longleftrightarrow> c_between c = id \<and> q_after_lookup q = id \<and> q_after_create q = id"

definition same_data :: "api_state \<Rightarrow> api_state \<Rightarrow> bool" where
  "same_data st st' \<longleftrightarrow> as_table st' = as_table st \<and> as_published st' = as_published st \<and>
     as_JobEnqueued st' = as_JobEnqueued st \<and> as_JobCancelled st' = as_JobCancelled st"

text \<open>What a success says: \<open>promised\<close> relates a request, its reply, and the states around it.\<close>

fun promised :: "pg \<Rightarrow> call \<Rightarrow> api_request \<Rightarrow> http_reply \<Rightarrow> api_state \<Rightarrow> api_state \<Rightarrow> bool" where
  "promised pg c (PostJob bound) r st st' \<longleftrightarrow> rp_Status r = 201 \<and> (\<exists>i. rp_Body r = IDBody i \<and>
     (new_pending (as_table st) (as_table st') i \<or>
      as_table st' = as_table st \<and> as_published st' = as_published st \<and> (\<exists>row \<in> set (as_table st). row_id row = i)))"
| "promised pg c (GetList state cursor limit) r st st' \<longleftrightarrow> rp_Status r = 200 \<and> same_data st st' \<and> (\<exists>jobs next. rp_Body r = PageBody jobs next)"
| "promised pg c (GetByKey key) r st st' \<longleftrightarrow> rp_Status r = 200 \<and> same_data st st' \<and>
     (\<exists>job. rp_Body r = JobBody job \<and> (\<exists>row \<in> set (as_table st). row_idempotency_key row = Some key \<and> scanJob pg row = Inr job))"
| "promised pg c (GetById i) r st st' \<longleftrightarrow> rp_Status r = 200 \<and> same_data st st' \<and>
     (\<exists>job. rp_Body r = JobBody job \<and> (\<exists>row \<in> set (as_table st). row_id row = i \<and> scanJob pg row = Inr job))"
| "promised pg c (PostCancel i) r st st' \<longleftrightarrow> rp_Status r = 200 \<and>
     (\<exists>row \<in> set (as_table st). row_id row = i \<and> CanTransition (row_state row) JobStateDead) \<and>
     as_table st' = map (\<lambda>row. if row_id row = i then row\<lparr>row_state := JobStateDead, row_updated_at := stored pg (c_now c)\<rparr> else row) (as_table st)"

definition honest :: "pg \<Rightarrow> call \<Rightarrow> api_request \<Rightarrow> string \<Rightarrow> api_state \<Rightarrow> http_reply \<times> api_state \<Rightarrow> bool" where
  "honest pg c req rid st res \<longleftrightarrow>
     (if rp_Status (fst res) \<ge> 400 then same_data st (snd res) \<and> (\<exists>code message. rp_Body (fst res) = ErrorBody code message rid)
      else promised pg c req (fst res) st (snd res))"

lemma honest_error:
  "400 \<le> status \<Longrightarrow> same_data st st' \<Longrightarrow> honest pg c req rid st (RespondError rid status code message, st')"
  by (simp add: honest_def RespondError_def)

lemma same_data_refl [simp]: "same_data st st"
  by (simp add: same_data_def)

lemma honest_PostJob:
  assumes "alone c q"
  shows "honest pg c (PostJob bound) rid st (EnqueueJob pg q bound rid st)"
proof (cases bound)
  case (Inl err)
  then show ?thesis by (simp add: EnqueueJob_def honest_error)
next
  case (Inr request)
  let ?job = "zero_Job\<lparr>job_IdempotencyKey := er_IdempotencyKey request, job_Task := er_Task request,
    job_ScheduledAt := er_ScheduledAt request, job_Metadata := er_Metadata request\<rparr>"
  obtain res pub tbl where run: "Enqueue (GetJobByIdempotencyKey pg) (CreateJob pg) q ?job (as_table st) = (res, pub, tbl)"
    by (metis prod_cases3)
  have q: "q_after_lookup q = id" "q_after_create q = id" using assms by (simp_all add: alone_def)
  show ?thesis
  proof (cases "task_Name (er_Task request) = ''''")
    case True
    then show ?thesis using Inr by (simp add: EnqueueJob_def honest_error)
  next
    case False
    show ?thesis
    proof (cases res)
      case (Inl err)
      then have "tbl = as_table st \<and> pub = None" using Enqueue_failed [OF _ q] run by blast
      then show ?thesis using False Inr Inl run by (simp add: EnqueueJob_def honest_error same_data_def)
    next
      case (Inr i)
      have "job_State ?job = ''''" "job_LeaseToken ?job = ''''" by (simp_all add: zero_Job_def)
      from Enqueue_succeeded [OF run [unfolded Inr] q this] show ?thesis
        using False \<open>bound = Inr request\<close> Inr run by (auto simp: EnqueueJob_def honest_def split: option.split)
    qed
  qed
qed

lemma honest_PostCancel:
  assumes "alone c q"
  shows "honest pg c (PostCancel i) rid st (CancelJob_handler pg c i rid st)"
proof -
  obtain res tbl where run: "CancelJob pg c i (as_table st) = (res, tbl)" by fastforce
  have "c_between c = id" using assms by (simp add: alone_def)
  note effect = CancelJob_undisturbed [OF this run]
  show ?thesis
  proof (cases res)
    case (Inl err)
    then have "same_data st (st\<lparr>as_table := tbl\<rparr>)" using effect by (simp add: same_data_def)
    then show ?thesis using Inl run by (simp add: CancelJob_handler_def Cancel_job_def honest_error)
  next
    case (Inr u)
    then show ?thesis using effect run by (simp add: CancelJob_handler_def Cancel_job_def honest_def)
  qed
qed

lemma honest_respond_job:
  assumes "\<And>job. res = Inr job \<Longrightarrow> promised pg c req \<lparr>rp_Status = 200, rp_Body = JobBody job\<rparr> st st"
  shows "honest pg c req rid st (respond_job rid res, st)"
  using assms by (cases res) (simp_all add: respond_job_def honest_error honest_def [of _ _ _ _ _ "(\<lparr>rp_Status = 200, rp_Body = _\<rparr>, _)"])

lemma handle_request_honest:
  assumes "alone c q"
  shows "honest pg c req rid st (handle_request pg coll c q req rid st)"
proof (cases req)
  case (GetList state cursor limit)
  then show ?thesis
    by (auto simp: ListJobs_handler_def Let_def honest_error honest_def [of _ _ _ _ _ "(\<lparr>rp_Status = 200, rp_Body = _\<rparr>, _)"] split: option.split sum.split)
next
  case (GetByKey key)
  then show ?thesis
    by (auto simp: GetJobByKey_def honest_error GetJobByIdempotencyKey_def dest: query_row_present intro!: honest_respond_job)
next
  case (GetById i)
  then show ?thesis by (auto simp: GetJobStatus_def GetJob_def dest: query_row_present intro!: honest_respond_job)
qed (simp_all add: honest_PostJob [OF assms] honest_PostCancel [OF assms])

lemma handle_request_logs:
  "as_HTTPRequests (snd (handle_request pg coll c q req rid st)) = as_HTTPRequests st"
  "as_log (snd (handle_request pg coll c q req rid st)) = as_log st"
  by (cases req; auto simp: EnqueueJob_def ListJobs_handler_def GetJobByKey_def GetJobStatus_def CancelJob_handler_def Let_def split_beta
      split: sum.split option.split service_error.split)+

lemma honest_bookkeeping:
  "honest pg c req rid st (r, st'\<lparr>as_HTTPRequests := x, as_log := y\<rparr>) \<longleftrightarrow> honest pg c req rid st (r, st')"
  by (cases req) (simp_all add: honest_def same_data_def)


definition empty_api :: "table \<Rightarrow> api_state" where
  "empty_api tbl = \<lparr>as_table = tbl, as_published = [], as_JobEnqueued = 0, as_JobCancelled = 0, as_HTTPRequests = [], as_log = []\<rparr>"


section \<open>What a client of the interface meets\<close>

text \<open>
  A job that a client has just created cannot be read or cancelled by its id until a worker has
  claimed it: its row has no lease token, which the driver refuses to scan, and the answer is 500.
\<close>

theorem new_job_out_of_reach:
  assumes "scan_null pg = Inl e" and "new_pending (as_table st0) (as_table st) i" and "c_fault c = None"
  shows "rp_Status (fst (GetJobStatus pg c i rid st)) = 500 \<and> rp_Status (fst (CancelJob_handler pg c i rid st)) = 500"
proof -
  obtain row where row: "as_table st = as_table st0 @ [row]" "row_id row = i" "i \<notin> row_id ` set (as_table st0)" "row_lease_token row = None"
    using assms(2) by (auto simp: new_pending_def)
  have "i \<notin> row_id ` set tbl \<Longrightarrow> find (\<lambda>r. row_id r = i) (tbl @ [row]) = Some row" for tbl
    using row(2) by (induction tbl) auto
  from this [OF row(3)] have "find (\<lambda>r. row_id r = i) (as_table st0 @ [row]) = Some row" .
  moreover have "\<exists>err. scanJob pg row = Inl (ErrDriver err)"
    using row(4) assms(1) by (auto simp: scanJob_def scan_text_def split: sum.split option.split)
  ultimately have "\<exists>err. GetJob pg c i (as_table st) = Inl (ErrDriver err)"
    using assms(3) row(1) by (simp add: GetJob_def query_row_def)
  then show ?thesis by (auto simp: GetJobStatus_def respond_job_def RespondError_def CancelJob_handler_def Cancel_job_def CancelJob_def)
qed

text \<open>A cursor that a client has damaged is answered with 500, not with 400 as the other bad parameters are.\<close>

theorem bad_cursor_internal_error:
  assumes "decodeCursor cursor = Inl e" and "cursor \<noteq> ''''"
  shows "rp_Status (fst (ListJobs_handler pg coll c '''' cursor '''' rid st)) = 500"
  using assms by (simp add: ListJobs_handler_def known_states_def ListJobs_def RespondError_def)

text \<open>A panic is answered with 500, logged as an error, and missing from the request counter.\<close>

theorem panic_not_counted:
  assumes "handler (RequestID header rand now) = Panicked v None st"
  shows "serve header rand now label handler =
    (RequestID header rand now, RespondError (RequestID header rand now) 500 ''internal_error'' (''panic: '' @ v), st\<lparr>as_log := as_log st @ [LevelError]\<rparr>)"
  using assms by (simp add: serve_def Let_def metricsMiddleware_def Recovery_def RespondError_def RequestLogger_def)

end
