(* ===== verification/Breaker.thy ===== *)
theory Breaker
  imports Conduit_Prelude
begin

text \<open>
  The circuit breaker, \<open>src/internal/circuitbreaker/circuitbreaker.go\<close>. The mutex makes
  each method atomic, so a method is a function of the breaker and of the clock reading the
  method takes (\<open>time.Now()\<close>, \<open>time.Since\<close>).
\<close>

section \<open>State and operations\<close>

datatype breaker_state = StateClosed | StateOpen | StateHalfOpen

record breaker_config =
  FailureThreshold :: int
  SuccessThreshold :: int
  OpenTimeout :: duration
  HalfOpenRequests :: int

record breaker =
  cb_cfg :: breaker_config
  cb_state :: breaker_state
  cb_failures :: int
  cb_successes :: int
  cb_openedAt :: instant

definition New_breaker :: "breaker_config \<Rightarrow> breaker" where
  "New_breaker c =
     (let c = (if FailureThreshold c \<le> 0 then c\<lparr>FailureThreshold := 5\<rparr> else c);
          c = (if SuccessThreshold c \<le> 0 then c\<lparr>SuccessThreshold := 2\<rparr> else c);
          c = (if OpenTimeout c \<le> 0 then c\<lparr>OpenTimeout := 60 * Second\<rparr> else c);
          c = (if HalfOpenRequests c \<le> 0 then c\<lparr>HalfOpenRequests := 1\<rparr> else c)
      in \<lparr>cb_cfg = c, cb_state = StateClosed, cb_failures = 0, cb_successes = 0, cb_openedAt = 0\<rparr>)"

definition Allow :: "instant \<Rightarrow> breaker \<Rightarrow> bool \<times> breaker" where
  "Allow now b =
     (case cb_state b of
        StateClosed \<Rightarrow> (True, b)
      | StateOpen \<Rightarrow>
          (if now - cb_openedAt b \<ge> OpenTimeout (cb_cfg b)
           then (True, b\<lparr>cb_state := StateHalfOpen, cb_failures := 0, cb_successes := 0\<rparr>)
           else (False, b))
      | StateHalfOpen \<Rightarrow> (cb_successes b < HalfOpenRequests (cb_cfg b), b))"

definition RecordSuccess :: "breaker \<Rightarrow> breaker" where
  "RecordSuccess b =
     (case cb_state b of
        StateHalfOpen \<Rightarrow>
          (let b = b\<lparr>cb_successes := cb_successes b + 1\<rparr>
           in if cb_successes b \<ge> SuccessThreshold (cb_cfg b)
              then b\<lparr>cb_state := StateClosed, cb_failures := 0, cb_successes := 0\<rparr>
              else b)
      | StateClosed \<Rightarrow> b\<lparr>cb_failures := 0\<rparr>
      | StateOpen \<Rightarrow> b)"

definition RecordFailure :: "instant \<Rightarrow> breaker \<Rightarrow> breaker" where
  "RecordFailure now b =
     (case cb_state b of
        StateClosed \<Rightarrow>
          (let b = b\<lparr>cb_failures := cb_failures b + 1\<rparr>
           in if cb_failures b \<ge> FailureThreshold (cb_cfg b)
              then b\<lparr>cb_state := StateOpen, cb_openedAt := now\<rparr>
              else b)
      | StateHalfOpen \<Rightarrow>
          b\<lparr>cb_state := StateOpen, cb_openedAt := now, cb_failures := 0, cb_successes := 0\<rparr>
      | StateOpen \<Rightarrow> b)"

text \<open>The constants \<open>run\<close> in \<open>src/cmd/server/main.go\<close> gives the breaker.\<close>

definition server_breaker_config :: breaker_config where
  "server_breaker_config =
     \<lparr>FailureThreshold = 5, SuccessThreshold = 2, OpenTimeout = 30 * Second,
      HalfOpenRequests = 1\<rparr>"

section \<open>Runs\<close>

text \<open>
  Any interleaving of calls by the workers is a list of events, each with the clock reading
  its method takes.
\<close>

datatype breaker_event = EvAllow instant | EvSuccess | EvFailure instant

fun breaker_step :: "breaker_event \<Rightarrow> breaker \<Rightarrow> breaker" where
  "breaker_step (EvAllow t) b = snd (Allow t b)"
| "breaker_step EvSuccess b = RecordSuccess b"
| "breaker_step (EvFailure t) b = RecordFailure t b"

text \<open>The reference for tripping: the failures since the last success, calls to \<open>Allow\<close> aside.\<close>

fun streak_step :: "breaker_event \<Rightarrow> int \<Rightarrow> int" where
  "streak_step (EvAllow t) n = n"
| "streak_step EvSuccess n = 0"
| "streak_step (EvFailure t) n = n + 1"

definition failure_streak :: "breaker_event list \<Rightarrow> int" where
  "failure_streak es = fold streak_step es 0"

text \<open>One job at a time, succeeding: ask the breaker and, when it lets the job run, report success.\<close>

definition probe :: "instant \<Rightarrow> breaker \<Rightarrow> breaker" where
  "probe t b = (case Allow t b of (ok, b') \<Rightarrow> if ok then RecordSuccess b' else b')"

lemmas breaker_defs = Allow_def RecordSuccess_def RecordFailure_def

section \<open>The invariant\<close>

definition breaker_config_ok :: "breaker_config \<Rightarrow> bool" where
  "breaker_config_ok c \<longleftrightarrow>
     0 < FailureThreshold c \<and> 0 < SuccessThreshold c \<and> 0 < OpenTimeout c \<and> 0 < HalfOpenRequests c"

definition breaker_inv :: "breaker \<Rightarrow> bool" where
  "breaker_inv b \<longleftrightarrow> breaker_config_ok (cb_cfg b) \<and>
     (case cb_state b of
        StateClosed \<Rightarrow> 0 \<le> cb_failures b \<and> cb_failures b < FailureThreshold (cb_cfg b) \<and> cb_successes b = 0
      | StateOpen \<Rightarrow> cb_successes b = 0
      | StateHalfOpen \<Rightarrow> cb_failures b = 0 \<and> 0 \<le> cb_successes b \<and> cb_successes b < SuccessThreshold (cb_cfg b))"

lemma New_breaker_simps [simp]:
  "cb_state (New_breaker c) = StateClosed" "cb_failures (New_breaker c) = 0"
  "cb_successes (New_breaker c) = 0" "breaker_config_ok (cb_cfg (New_breaker c))"
  "0 < FailureThreshold (cb_cfg (New_breaker c))"
  by (simp_all add: New_breaker_def Let_def breaker_config_ok_def)

lemma New_breaker_cfg_id:
  "breaker_config_ok c \<Longrightarrow> cb_cfg (New_breaker c) = c"
  by (simp add: New_breaker_def breaker_config_ok_def)

lemma server_breaker_cfg [simp]:
  "cb_cfg (New_breaker server_breaker_config) = server_breaker_config"
  by (rule New_breaker_cfg_id) (simp add: breaker_config_ok_def server_breaker_config_def)

lemma server_breaker_limits [simp]:
  "FailureThreshold server_breaker_config = 5" "SuccessThreshold server_breaker_config = 2"
  "OpenTimeout server_breaker_config = 30000000000" "HalfOpenRequests server_breaker_config = 1"
  by (simp_all add: server_breaker_config_def Second_def)

lemma breaker_inv_New [simp]: "breaker_inv (New_breaker c)"
  by (auto simp: breaker_inv_def New_breaker_def Let_def breaker_config_ok_def)

lemma breaker_inv_Allow [intro]: "breaker_inv b \<Longrightarrow> breaker_inv (snd (Allow t b))"
  by (auto simp: breaker_inv_def breaker_config_ok_def Allow_def split: breaker_state.splits)

lemma breaker_inv_RecordSuccess [intro]: "breaker_inv b \<Longrightarrow> breaker_inv (RecordSuccess b)"
  by (auto simp: breaker_inv_def breaker_config_ok_def RecordSuccess_def Let_def split: breaker_state.splits)

lemma breaker_inv_RecordFailure [intro]: "breaker_inv b \<Longrightarrow> breaker_inv (RecordFailure t b)"
  by (auto simp: breaker_inv_def breaker_config_ok_def RecordFailure_def Let_def split: breaker_state.splits)

lemma breaker_inv_step: "breaker_inv b \<Longrightarrow> breaker_inv (breaker_step e b)"
  by (cases e) auto

lemma breaker_step_cfg [simp]: "cb_cfg (breaker_step e b) = cb_cfg b"
  by (cases e) (auto simp: breaker_defs Let_def split: breaker_state.splits)

lemma breaker_run_cfg [simp]: "cb_cfg (fold breaker_step es b) = cb_cfg b"
  by (induction es arbitrary: b) auto

lemma breaker_inv_run: "breaker_inv b \<Longrightarrow> breaker_inv (fold breaker_step es b)"
  by (rule fold_invariant) (auto intro: breaker_inv_step)

section \<open>Tripping\<close>

lemma closed_step:
  assumes "cb_state b = StateClosed"
  shows "cb_failures (breaker_step e b) = streak_step e (cb_failures b)"
    and "cb_state (breaker_step e b) = StateClosed \<longleftrightarrow>
           (case e of EvFailure t \<Rightarrow> cb_failures b + 1 < FailureThreshold (cb_cfg b) | _ \<Rightarrow> True)"
  using assms by (cases e; auto simp: breaker_defs Let_def)+

lemma failure_streak_simps [simp]:
  "failure_streak [] = 0" "failure_streak (es @ [e]) = streak_step e (failure_streak es)"
  by (simp_all add: failure_streak_def)

lemma closed_run:
  fixes c :: breaker_config
  defines "closed \<equiv> all_prefixes (\<lambda>es. cb_state (fold breaker_step es (New_breaker c)) = StateClosed)"
    and "below \<equiv> all_prefixes (\<lambda>es. failure_streak es < FailureThreshold (cb_cfg (New_breaker c)))"
  shows "(closed es \<longleftrightarrow> below es) \<and>
    (closed es \<longrightarrow> cb_failures (fold breaker_step es (New_breaker c)) = failure_streak es)"
proof (induction es rule: rev_induct)
  case Nil
  show ?case by (simp add: closed_def below_def)
next
  case (snoc e es)
  let ?b = "fold breaker_step es (New_breaker c)"
  have "cb_failures (breaker_step e ?b) = failure_streak (es @ [e]) \<and>
      (cb_state (breaker_step e ?b) = StateClosed \<longleftrightarrow>
         failure_streak (es @ [e]) < FailureThreshold (cb_cfg (New_breaker c)))"
    if C: "closed es"
  proof -
    have "cb_failures ?b = failure_streak es" and "cb_state ?b = StateClosed"
      and "failure_streak es < FailureThreshold (cb_cfg (New_breaker c))"
      using snoc.IH C by (auto simp: closed_def below_def dest: all_prefixes_last)
    then show ?thesis
      using closed_step [of ?b e] by (cases e) auto
  qed
  then show ?case
    using snoc.IH by (auto simp: closed_def below_def)
qed

section \<open>Recovery\<close>

lemma probe_half_open:
  assumes "cb_state b = StateHalfOpen"
  shows "probe t b =
    (if cb_successes b < HalfOpenRequests (cb_cfg b)
     then (if SuccessThreshold (cb_cfg b) \<le> cb_successes b + 1
           then b\<lparr>cb_state := StateClosed, cb_failures := 0, cb_successes := 0\<rparr>
           else b\<lparr>cb_successes := cb_successes b + 1\<rparr>)
     else b)"
  using assms by (simp add: probe_def Allow_def RecordSuccess_def Let_def)

lemma probes_half_open:
  assumes "cb_state b = StateHalfOpen" and "0 \<le> cb_successes b"
    and "SuccessThreshold (cb_cfg b) \<le> HalfOpenRequests (cb_cfg b)"
    and "cb_successes b + int (length ts) = SuccessThreshold (cb_cfg b)" and "ts \<noteq> []"
  shows "cb_state (fold probe ts b) = StateClosed"
  using assms
proof (induction ts arbitrary: b)
  case Nil
  then show ?case by simp
next
  case (Cons t ts)
  show ?case
  proof (cases ts)
    case Nil
    with Cons.prems show ?thesis by (simp add: probe_half_open)
  next
    case (Cons t' ts')
    with Cons.prems Cons.IH [of "b\<lparr>cb_successes := cb_successes b + 1\<rparr>"] show ?thesis
      by (simp add: probe_half_open)
  qed
qed

lemma probes_stuck:
  assumes "cb_state b = StateHalfOpen" and "cb_successes b \<le> HalfOpenRequests (cb_cfg b)"
    and "HalfOpenRequests (cb_cfg b) < SuccessThreshold (cb_cfg b)"
  shows "cb_state (fold probe ts b) = StateHalfOpen"
  using assms
proof (induction ts arbitrary: b)
  case (Cons t ts)
  then show ?case by (simp add: probe_half_open Cons.IH)
qed simp

section \<open>Properties\<close>

text \<open>
  Every breaker the service can reach, by any interleaving of calls at any times, keeps its
  counters in range: closed with fewer failures than the threshold, half-open with fewer
  successes than the threshold, and all four limits of its configuration positive.
\<close>

theorem breaker_invariant: "breaker_inv (fold breaker_step es (New_breaker c))"
  by (simp add: breaker_inv_run)


text \<open>
  While the open timeout has not elapsed, an open breaker refuses every call, and nothing the
  workers do (asking again, reporting late successes or failures) changes it.
\<close>

theorem breaker_open_blocks:
  assumes "cb_state b = StateOpen"
    and "\<forall>e \<in> set es. \<forall>t. e = EvAllow t \<longrightarrow> t - cb_openedAt b < OpenTimeout (cb_cfg b)"
    and "now - cb_openedAt b < OpenTimeout (cb_cfg b)"
  shows "fold breaker_step es b = b \<and> Allow now (fold breaker_step es b) = (False, b)"
proof -
  have "breaker_step e b = b" if "e \<in> set es" for e
    using assms(1,2) that by (cases e) (auto simp: breaker_defs)
  then have "fold breaker_step es b = b"
    by (rule fold_constant)
  with assms(1,3) show ?thesis by (simp add: Allow_def)
qed

theorem breaker_open_blocks_witness:
  "let b = fold breaker_step (replicate 5 (EvFailure 100)) (New_breaker server_breaker_config)
   in fold breaker_step [EvAllow 101, EvSuccess, EvFailure 102] b = b \<and>
      Allow 200 (fold breaker_step [EvAllow 101, EvSuccess, EvFailure 102] b) = (False, b)"
proof -
  let ?b = "fold breaker_step (replicate 5 (EvFailure 100)) (New_breaker server_breaker_config)"
  have b: "cb_state ?b = StateOpen" "cb_openedAt ?b = 100"
    by (simp_all add: numeral_eq_Suc RecordFailure_def New_breaker_def server_breaker_config_def duration_defs)
  show ?thesis
    unfolding Let_def
    by (rule breaker_open_blocks) (simp_all add: b del: fold_replicate)
qed



text \<open>
  With the constants of the server (\<open>SuccessThreshold\<close> 2, \<open>HalfOpenRequests\<close> 1)
  the breaker locks up. Five failures open it; a first probe after the timeout is let through
  and succeeds; from then on every call is refused, at any time and after any number of further
  attempts, and the breaker never leaves the half-open state.
\<close>

theorem server_breaker_locks_up:
  assumes "t1 - t0 \<ge> 30 * Second"
    and "b = fold breaker_step (replicate 5 (EvFailure t0) @ [EvAllow t1, EvSuccess])
               (New_breaker server_breaker_config)"
  shows "cb_state (fold probe ts b) = StateHalfOpen \<and> Allow now (fold probe ts b) = (False, b)"
proof -
  have b: "cb_state b = StateHalfOpen" "cb_successes b = 1" "HalfOpenRequests (cb_cfg b) = 1"
    using assms by (simp_all add: numeral_eq_Suc breaker_defs New_breaker_def
        server_breaker_config_def Let_def Second_def)
  then have "fold probe ts b = b"
    by (intro fold_constant) (simp add: probe_half_open)
  with b show ?thesis by (simp add: Allow_def)
qed

theorem server_breaker_locks_up_witness:
  "let b = fold breaker_step (replicate 5 (EvFailure 0) @ [EvAllow (31 * Second), EvSuccess])
             (New_breaker server_breaker_config)
   in Allow (1000 * Hour) (fold probe [32 * Second, 33 * Second] b) = (False, b)"
  using server_breaker_locks_up [of "31 * Second" 0 _ "[32 * Second, 33 * Second]" "1000 * Hour"]
  by (simp add: Let_def Second_def)

end
