(* ===== verification/Floats.thy ===== *)
theory Floats
  imports Complex_Main "HOL-Library.Log_Nat" Conduit_Prelude
begin

text \<open>
  Go's \<open>float64\<close> arithmetic on finite values: a value is a rational, and every operation
  rounds its exact result to 53 significant bits, ties to even. The exponent range is not
  bounded: the retry engine compares every product with a duration before it uses it, so a
  product that would overflow is clamped either way, and a product that would be subnormal
  disappears in the sum with a delay of at least one nanosecond. Conversions between
  \<open>float64\<close> and \<open>time.Duration\<close> (an \<open>int64\<close>) are at the end.
\<close>

section \<open>Rounding to nearest\<close>

definition binade :: "rat \<Rightarrow> int" where
  "binade x = (let (n, d) = quotient_of x; k = bitlen n - bitlen d
    in if 2 powi k \<le> x then k else k - 1)"

definition round_half_even :: "rat \<Rightarrow> int" where
  "round_half_even x = (let f = \<lfloor>x\<rfloor>; r = x - of_int f
    in if r < 1 / 2 then f else if r > 1 / 2 then f + 1 else if even f then f else f + 1)"

definition round_pos :: "rat \<Rightarrow> rat" where
  "round_pos x = (let u = 2 powi (binade x - 52) in of_int (round_half_even (x / u)) * u)"

definition float64_round :: "rat \<Rightarrow> rat" where
  "float64_round x = (if x = 0 then 0 else if x < 0 then - round_pos (- x) else round_pos x)"

lemma binade_bounds:
  assumes "x > 0"
  shows "2 powi binade x \<le> x" and "x < 2 powi (binade x + 1)"
proof -
  obtain n d where q: "quotient_of x = (n, d)" by (cases "quotient_of x")
  have d: "d > 0" and x: "x = of_int n / of_int d"
    using q by (simp_all add: quotient_of_denom_pos quotient_of_div)
  have n: "n > 0" using assms d by (simp add: x zero_less_divide_iff)
  define a b where "a = nat (bitlen n - 1)" and "b = nat (bitlen d - 1)"
  have bl: "bitlen n = int a + 1" "bitlen d = int b + 1"
    using n d bitlen_nonneg [of n] bitlen_nonneg [of d] bitlen_eq_zero_iff [of n] bitlen_eq_zero_iff [of d]
    by (simp_all add: a_def b_def)
  have nb: "2 ^ a \<le> n" "n < 2 ^ (a + 1)" and db: "2 ^ b \<le> d" "d < 2 ^ (b + 1)"
    using bitlen_bounds [OF n] bitlen_bounds [OF d] by (simp_all add: bl nat_add_distrib)
  then have nr: "(2::rat) ^ a \<le> of_int n" "of_int n < (2::rat) ^ (a + 1)"
    and dr: "(2::rat) ^ b \<le> of_int d" "of_int d < (2::rat) ^ (b + 1)"
    by (metis of_int_le_iff of_int_less_iff of_int_power of_int_numeral)+
  define k where "k = int a - int b"
  have p: "(2::rat) powi k = 2 ^ a / 2 ^ b" "(2::rat) powi (k + 1) = 2 ^ (a + 1) / 2 ^ b"
      "(2::rat) powi (k - 1) = 2 ^ a / 2 ^ (b + 1)"
    by (simp_all add: k_def power_int_diff power_int_add field_simps)
  have "2 powi (k - 1) \<le> x"
    unfolding x p using nr(1) dr(2) d n by (intro frac_le) auto
  moreover have "x < 2 powi (k + 1)"
    unfolding x p using nr(2) dr(1) n by (intro frac_less) auto
  moreover have "binade x = (if 2 powi k \<le> x then k else k - 1)"
    by (simp add: binade_def q bl k_def)
  ultimately show "2 powi binade x \<le> x" "x < 2 powi (binade x + 1)" by (auto split: if_splits)
qed

lemma powi2_pos [simp]: "(2::rat) powi e > 0" by simp

lemma powi2_less_iff: "(2::rat) powi a < 2 powi b \<longleftrightarrow> a < b"
  using power_int_strict_increasing [of a b "2::rat"] power_int_increasing [of b a "2::rat"]
  by (cases "a < b") auto

lemma powi2_le_iff: "(2::rat) powi a \<le> 2 powi b \<longleftrightarrow> a \<le> b"
  using powi2_less_iff [of b a] by auto

lemma binade_unique:
  assumes "2 powi e \<le> x" and "x < 2 powi (e + 1)"
  shows "binade x = e"
proof -
  have "x > 0" using assms(1) powi2_pos [of e] by linarith
  note b = binade_bounds [OF this]
  have "2 powi e < (2::rat) powi (binade x + 1)" "2 powi binade x < (2::rat) powi (e + 1)"
    using assms b by linarith+
  then show ?thesis by (simp add: powi2_less_iff)
qed

lemma binade_mono: "0 < x \<Longrightarrow> x \<le> y \<Longrightarrow> binade x \<le> binade y"
  using binade_bounds [of x] binade_bounds [of y] powi2_less_iff [of "binade x" "binade y + 1"]
  by linarith

lemma round_half_even_of_int [simp]: "round_half_even (of_int k) = k"
  by (simp add: round_half_even_def)

lemma round_half_even_mono: "x \<le> y \<Longrightarrow> round_half_even x \<le> round_half_even y"
proof -
  assume xy: "x \<le> y"
  have cand: "round_half_even z \<in> {\<lfloor>z\<rfloor>, \<lfloor>z\<rfloor> + 1}" for z
    by (simp add: round_half_even_def Let_def)
  show ?thesis
  proof (cases "\<lfloor>x\<rfloor> = \<lfloor>y\<rfloor>")
    case True
    then show ?thesis using xy by (auto simp: round_half_even_def Let_def)
  next
    case False
    then have "\<lfloor>x\<rfloor> + 1 \<le> \<lfloor>y\<rfloor>" using floor_mono [OF xy] by linarith
    then show ?thesis using cand [of x] cand [of y] by auto
  qed
qed

lemma round_pos_exact:
  assumes "0 < m" and "m \<le> 2 ^ 53"
  shows "round_pos (of_int m * 2 powi e) = of_int m * 2 powi e"
proof -
  define x :: rat where "x = of_int m * 2 powi e"
  define b where "b = binade x"
  have "x > 0" using assms(1) by (simp add: x_def)
  note bb = binade_bounds [OF this, folded b_def]
  have m53: "(of_int m :: rat) \<le> 2 ^ 53" using assms(2) by (metis of_int_le_iff of_int_power of_int_numeral)
  then have "x \<le> 2 powi (e + 53)" by (simp add: x_def power_int_add)
  then have "b \<le> e + 53" using bb(1) powi2_le_iff [of b "e + 53"] by linarith
  then consider "b \<le> e + 52" | "b = e + 53" by linarith
  then have "\<exists>k. x / 2 powi (b - 52) = of_int k"
  proof cases
    case 1
    have "(2::rat) powi e = 2 powi (b - 52) * 2 powi (e + 52 - b)"
      by (simp flip: power_int_add)
    moreover have "(2::rat) powi (e + 52 - b) = of_int (2 ^ nat (e + 52 - b))"
      using 1 by (simp add: power_int_def)
    ultimately have "x / 2 powi (b - 52) = of_int (m * 2 ^ nat (e + 52 - b))"
      by (simp add: x_def)
    then show ?thesis by blast
  next
    case 2
    then have "2 ^ 53 \<le> (of_int m :: rat)" using bb(1) by (simp add: x_def power_int_add)
    then have "(of_int m :: rat) = 2 ^ 53" using m53 by linarith
    then have "x / 2 powi (b - 52) = of_int (2 ^ 52)" by (simp add: x_def 2 power_int_diff power_int_add)
    then show ?thesis by blast
  qed
  then obtain k where k: "x / 2 powi (b - 52) = of_int k" ..
  then have "x = of_int k * 2 powi (b - 52)" by (simp add: divide_eq_eq)
  then have "round_pos x = x" unfolding round_pos_def Let_def b_def [symmetric] k round_half_even_of_int by simp
  then show ?thesis by (simp add: x_def)
qed

lemma round_pos_mantissa:
  assumes "x > 0"
  obtains m e where "round_pos x = of_int m * 2 powi e" "2 ^ 52 \<le> m" "m \<le> 2 ^ 53" "e = binade x - 52"
proof -
  let ?u = "(2::rat) powi (binade x - 52)"
  have "of_int (2 ^ 52) \<le> x / ?u" "x / ?u \<le> of_int (2 ^ 53)"
    using binade_bounds [OF assms] by (simp_all add: power_int_diff power_int_add field_simps)
  from this [THEN round_half_even_mono, unfolded round_half_even_of_int] show ?thesis
    using that [of "round_half_even (x / ?u)"] by (simp add: round_pos_def Let_def)
qed

lemma round_pos_pos: "x > 0 \<Longrightarrow> round_pos x > 0"
  by (erule round_pos_mantissa) (simp add: order_less_le_trans [of 0 "2 ^ 52"])

lemma round_pos_idem: "x > 0 \<Longrightarrow> round_pos (round_pos x) = round_pos x"
  by (erule round_pos_mantissa) (metis round_pos_exact less_le_trans zero_less_numeral zero_less_power)

lemma round_pos_mono:
  assumes "0 < x" and "x \<le> y"
  shows "round_pos x \<le> round_pos y"
proof (cases "binade x = binade y")
  case True
  then show ?thesis
    using assms by (simp add: round_pos_def Let_def divide_right_mono round_half_even_mono mult_right_mono)
next
  case False
  then have lt: "binade x + 1 \<le> binade y" using binade_mono [OF assms] by linarith
  obtain m where m: "round_pos x = of_int m * 2 powi (binade x - 52)" "m \<le> 2 ^ 53"
    using assms(1) by (rule round_pos_mantissa) blast
  obtain n where n: "round_pos y = of_int n * 2 powi (binade y - 52)" "2 ^ 52 \<le> n"
    using less_le_trans [OF assms] by (rule round_pos_mantissa) blast
  have "round_pos x \<le> 2 ^ 53 * 2 powi (binade x - 52)"
    using m by (simp add: mult_right_mono)
  also have "\<dots> = 2 powi (binade x + 1)" by (simp add: power_int_diff power_int_add)
  also have "\<dots> \<le> 2 powi binade y" using lt by (simp add: powi2_le_iff)
  also have "\<dots> = 2 ^ 52 * 2 powi (binade y - 52)" by (simp add: power_int_diff)
  also have "\<dots> \<le> round_pos y"
    using n by (simp add: mult_right_mono)
  finally show ?thesis .
qed

section \<open>The laws of a rounding\<close>

locale rounding =
  fixes rnd :: "rat \<Rightarrow> rat"
  assumes mono: "x \<le> y \<Longrightarrow> rnd x \<le> rnd y"
    and idem: "rnd (rnd x) = rnd x"
begin

lemma le_rep: "x \<le> r \<Longrightarrow> rnd r = r \<Longrightarrow> rnd x \<le> r"
  using mono [of x r] by simp

lemma ge_rep: "r \<le> x \<Longrightarrow> rnd r = r \<Longrightarrow> r \<le> rnd x"
  using mono [of r x] by simp

lemma scale_up:
  assumes "rnd x = x" and "0 \<le> x" and "1 \<le> k"
  shows "x \<le> rnd (x * k)"
proof (rule ge_rep)
  show "x \<le> x * k" using mult_left_mono [OF assms(3,2)] by simp
qed (rule assms)

lemma add_up:
  assumes "rnd x = x" and "0 \<le> y"
  shows "x \<le> rnd (x + y)"
  using assms by (intro ge_rep) simp_all

end

interpretation f64: rounding float64_round
proof
  show "float64_round (float64_round x) = float64_round x" for x
    by (auto simp: float64_round_def round_pos_idem dest: round_pos_pos)
      (metis neg_0_less_iff_less not_less_iff_gr_or_eq round_pos_pos)+
  show "float64_round x \<le> float64_round y" if "x \<le> y" for x y
    using that round_pos_mono [of x y] round_pos_mono [of "- y" "- x"] round_pos_pos [of "- x"] round_pos_pos [of y]
    by (auto simp: float64_round_def)
qed

section \<open>Operations and conversions\<close>

definition float64_of_int :: "int \<Rightarrow> rat" where
  "float64_of_int n = float64_round (of_int n)"

definition f64_mul :: "rat \<Rightarrow> rat \<Rightarrow> rat" where
  "f64_mul x y = float64_round (x * y)"

definition f64_add :: "rat \<Rightarrow> rat \<Rightarrow> rat" where
  "f64_add x y = float64_round (x + y)"

text \<open>
  A conversion to an \<open>int64\<close> drops the fraction. Outside the range of \<open>int64\<close> the language
  leaves the result to the implementation; on amd64 it is the least \<open>int64\<close>.
\<close>

definition int64_of_float :: "rat \<Rightarrow> int" where
  "int64_of_float x = (let t = (if x < 0 then \<lceil>x\<rceil> else \<lfloor>x\<rfloor>)
    in if - (2 ^ 63) \<le> t \<and> t < 2 ^ 63 then t else - (2 ^ 63))"

lemma float64_zero [simp]: "float64_round 0 = 0"
  by (simp add: float64_round_def)

lemma float64_nonneg: "0 \<le> x \<Longrightarrow> 0 \<le> float64_round x"
  using f64.ge_rep [of 0 x] by simp

lemma float64_of_int_exact [simp]:
  assumes "0 \<le> n" and "n \<le> 2 ^ 53"
  shows "float64_of_int n = of_int n" and "float64_round (of_int n) = of_int n"
  using assms round_pos_exact [of n 0] by (auto simp: float64_of_int_def float64_round_def)

lemma int64_of_float_bounds:
  assumes "of_int a \<le> x" and "x \<le> of_int b" and "0 \<le> a" and "b \<le> 2 ^ 53"
  shows "a \<le> int64_of_float x" and "int64_of_float x \<le> b"
proof -
  have "a \<le> \<lfloor>x\<rfloor>" "\<lfloor>x\<rfloor> \<le> b" and x: "\<not> x < 0" using assms by linarith+
  moreover from this assms have "int64_of_float x = \<lfloor>x\<rfloor>"
    by (simp add: int64_of_float_def)
  ultimately show "a \<le> int64_of_float x" "int64_of_float x \<le> b" by simp_all
qed

lemma int64_of_float_int [simp]: "0 \<le> n \<Longrightarrow> n < 2 ^ 63 \<Longrightarrow> int64_of_float (of_int n) = n"
  by (simp add: int64_of_float_def)

end
