(* ===== verification/Backoff.thy ===== *)
theory Backoff
  imports Floats Go_Errors
begin

text \<open>
  The retry engine, \<open>internal/retry/backoff.go\<close>: normalisation of its configuration, the
  exponential delay with jitter, in \<open>float64\<close> arithmetic, and the retry decision. The value
  of \<open>rand.Float64()\<close> is an argument of \<open>Delay\<close>. Not-a-number and infinite multipliers are
  outside the model. The lemmas bound the delay, show that it grows with the attempts, and give
  its closed form for the multiplier the server uses.
\<close>

section \<open>Model\<close>

record retry_config =
  BaseDelay :: duration
  MaxDelay :: duration
  Multiplier :: rat
  MaxAttempts :: int
  Jitter :: rat

definition ErrNoRetry :: go_error where
  "ErrNoRetry = errors_New ''retry: permanent failure, no retry''"

definition NewEngine :: "retry_config \<Rightarrow> retry_config" where
  "NewEngine cfg0 = (let
     cfg1 = (if BaseDelay cfg0 \<le> 0 then cfg0\<lparr>BaseDelay := Second\<rparr> else cfg0);
     cfg2 = (if MaxDelay cfg1 \<le> 0 then cfg1\<lparr>MaxDelay := 30 * Second\<rparr> else cfg1);
     cfg3 = (if Multiplier cfg2 \<le> 1 then cfg2\<lparr>Multiplier := 2\<rparr> else cfg2);
     cfg4 = (if MaxDelay cfg3 < BaseDelay cfg3 then cfg3\<lparr>MaxDelay := BaseDelay cfg3\<rparr> else cfg3);
     cfg5 = (if Jitter cfg4 < 0 then cfg4\<lparr>Jitter := 0\<rparr> else cfg4);
     cfg6 = (if Jitter cfg5 > 1 then cfg5\<lparr>Jitter := 1\<rparr> else cfg5)
   in cfg6)"

text \<open>The loop of \<open>Delay\<close>: at most \<open>attempt\<close> multiplications, cut at the first product above the maximum.\<close>

fun delay_loop :: "rat \<Rightarrow> rat \<Rightarrow> nat \<Rightarrow> rat \<Rightarrow> rat" where
  "delay_loop mult max_delay 0 delay = delay"
| "delay_loop mult max_delay (Suc n) delay =
     (let delay' = f64_mul delay mult
      in if delay' > max_delay then max_delay else delay_loop mult max_delay n delay')"

definition Delay :: "retry_config \<Rightarrow> int \<Rightarrow> rat \<Rightarrow> duration" where
  "Delay cfg attempt0 rand_Float64 = (let
     attempt = (if attempt0 < 0 then 0 else attempt0);
     max_delay = float64_of_int (MaxDelay cfg);
     delay1 = delay_loop (Multiplier cfg) max_delay (nat attempt) (float64_of_int (BaseDelay cfg));
     delay2 = (if delay1 > max_delay then max_delay else delay1);
     delay3 = (if Jitter cfg > 0
       then (let delay = f64_add delay2 (f64_mul (f64_mul delay2 (Jitter cfg)) rand_Float64)
             in if delay > max_delay then max_delay else delay)
       else delay2)
   in int64_of_float delay3)"

definition ShouldRetry :: "retry_config \<Rightarrow> int \<Rightarrow> go_error \<Rightarrow> bool" where
  "ShouldRetry cfg attempt err =
    (if errors_Is err ErrNoRetry then False
     else if MaxAttempts cfg > 0 \<and> attempt \<ge> MaxAttempts cfg then False
     else True)"

text \<open>The engine of \<open>cmd/server/main.go\<close>; the constant 0.1 is the \<open>float64\<close> next to it.\<close>

definition server_retry_config :: retry_config where
  "server_retry_config = NewEngine \<lparr>BaseDelay = Second, MaxDelay = 30 * Second, Multiplier = 2,
     MaxAttempts = 5, Jitter = float64_round (1 / 10)\<rparr>"

section \<open>Normalised configurations\<close>

definition retry_config_ok :: "retry_config \<Rightarrow> bool" where
  "retry_config_ok cfg \<longleftrightarrow> 0 < BaseDelay cfg \<and> BaseDelay cfg \<le> MaxDelay cfg \<and> 1 < Multiplier cfg \<and>
     0 \<le> Jitter cfg \<and> Jitter cfg \<le> 1"

lemma NewEngine_ok: "retry_config_ok (NewEngine cfg)"
  using duration_pos by (simp add: retry_config_ok_def NewEngine_def Let_def)

lemma NewEngine_id: "retry_config_ok cfg \<Longrightarrow> NewEngine cfg = cfg"
  by (simp add: retry_config_ok_def NewEngine_def Let_def)

section \<open>The loop\<close>

lemma delay_loop_inv:
  assumes "float64_round mx = mx" and "1 < k" and "float64_round d = d" and "0 \<le> d" and "d \<le> mx"
  shows "d \<le> delay_loop k mx n d \<and> delay_loop k mx n d \<le> mx \<and>
    float64_round (delay_loop k mx n d) = delay_loop k mx n d"
  using assms(3-)
proof (induction n arbitrary: d)
  case (Suc n)
  have "d \<le> f64_mul d k"
    using Suc.prems assms(2) by (simp add: f64_mul_def f64.scale_up)
  moreover have "float64_round (f64_mul d k) = f64_mul d k" by (simp add: f64_mul_def f64.idem)
  ultimately show ?case using Suc.IH [of "f64_mul d k"] Suc.prems assms(1) by (force simp: Let_def)
qed simp

lemmas delay_loop_bounds = delay_loop_inv [THEN conjunct1] delay_loop_inv [THEN conjunct2, THEN conjunct1]
  delay_loop_inv [THEN conjunct2, THEN conjunct2]

lemma delay_loop_mono:
  assumes "float64_round mx = mx" and "1 < k" and "float64_round d = d" and "0 \<le> d" and "d \<le> mx"
  shows "delay_loop k mx n d \<le> delay_loop k mx (Suc n) d"
  using assms(3-)
proof (induction n arbitrary: d)
  case 0
  then show ?case using delay_loop_bounds(1) [OF assms(1,2), of d 1] by simp
next
  case (Suc n)
  have up: "d \<le> f64_mul d k"
    using Suc.prems assms(2) by (simp add: f64_mul_def f64.scale_up)
  have "float64_round (f64_mul d k) = f64_mul d k" by (simp add: f64_mul_def f64.idem)
  from Suc.IH [OF this] show ?case using up Suc.prems by (force simp: Let_def)
qed

lemma delay_loop_double:
  assumes "mx \<le> 2 ^ 53" and "0 < b" and "b \<le> mx"
  shows "delay_loop 2 (of_int mx) n (of_int b) = of_int (min mx (b * 2 ^ n))"
  using assms(2,3)
proof (induction n arbitrary: b)
  case (Suc n)
  have dbl: "f64_mul (of_int b) 2 = of_int (2 * b)"
    using round_pos_exact [of b 1] Suc.prems assms(1) by (simp add: f64_mul_def float64_round_def mult.commute)
  show ?case
  proof (cases "mx < 2 * b")
    case True
    have "2 * b \<le> b * 2 ^ Suc n" using Suc.prems by simp
    then have "min mx (b * 2 ^ Suc n) = mx" using True by linarith
    then show ?thesis using True by (simp add: dbl Let_def)
  next
    case False
    then show ?thesis using Suc.IH [of "2 * b"] Suc.prems by (simp add: dbl Let_def mult.commute mult.left_commute)
  qed
qed simp

section \<open>The delay\<close>

text \<open>The delay before jitter, as the loop leaves it.\<close>

definition base_delay :: "retry_config \<Rightarrow> int \<Rightarrow> rat" where
  "base_delay cfg attempt =
     delay_loop (Multiplier cfg) (of_int (MaxDelay cfg)) (nat attempt) (of_int (BaseDelay cfg))"

definition jittered :: "retry_config \<Rightarrow> rat \<Rightarrow> rat \<Rightarrow> rat" where
  "jittered cfg d u = min (of_int (MaxDelay cfg)) (f64_add d (f64_mul (f64_mul d (Jitter cfg)) u))"

lemma base_delay_facts:
  assumes "retry_config_ok cfg" and "MaxDelay cfg \<le> 2 ^ 53"
  shows "of_int (BaseDelay cfg) \<le> base_delay cfg n" and "base_delay cfg n \<le> of_int (MaxDelay cfg)"
    and "float64_round (base_delay cfg n) = base_delay cfg n"
  using delay_loop_inv [of "of_int (MaxDelay cfg)" "Multiplier cfg" "of_int (BaseDelay cfg)" "nat n"] assms
  by (simp_all add: retry_config_ok_def base_delay_def)

lemma Delay_eq:
  assumes "retry_config_ok cfg" and "MaxDelay cfg \<le> 2 ^ 53"
  shows "Delay cfg n u = int64_of_float (if Jitter cfg > 0 then jittered cfg (base_delay cfg n) u else base_delay cfg n)"
proof -
  have fl: "float64_of_int (MaxDelay cfg) = of_int (MaxDelay cfg)"
    "float64_of_int (BaseDelay cfg) = of_int (BaseDelay cfg)"
    using assms by (simp_all add: retry_config_ok_def)
  have d: "delay_loop (Multiplier cfg) (of_int (MaxDelay cfg)) (nat (if n < 0 then 0 else n)) (of_int (BaseDelay cfg))
      = base_delay cfg n"
    by (simp add: base_delay_def)
  have cl: "(if base_delay cfg n > of_int (MaxDelay cfg) then of_int (MaxDelay cfg) else base_delay cfg n) = base_delay cfg n"
    using base_delay_facts(2) [OF assms, of n] by simp
  have "min m x = (if x > m then m else x)" for m x :: rat by (simp add: min_def)
  then show ?thesis unfolding Delay_def Let_def fl d cl jittered_def by presburger
qed

lemma jittered_bounds:
  assumes "retry_config_ok cfg" and "0 \<le> u" and "u < 1" and "0 \<le> d" and "float64_round d = d"
    and "d \<le> of_int (MaxDelay cfg)" and "MaxDelay cfg \<le> 2 ^ 53"
  shows "d \<le> jittered cfg d u" and "jittered cfg d u \<le> of_int (MaxDelay cfg)"
    and "d = of_int i \<Longrightarrow> jittered cfg d u \<le> of_int (min (MaxDelay cfg) (i + \<lceil>d * Jitter cfg\<rceil>))"
proof -
  let ?j = "f64_mul (f64_mul d (Jitter cfg)) u"
  have j: "0 \<le> Jitter cfg" "Jitter cfg \<le> 1" using assms(1) by (simp_all add: retry_config_ok_def)
  have j0: "0 \<le> ?j" using assms j by (simp add: f64_mul_def float64_nonneg)
  then show "d \<le> jittered cfg d u"
    using assms by (simp add: jittered_def f64_add_def f64.add_up)
  show "jittered cfg d u \<le> of_int (MaxDelay cfg)" by (simp add: jittered_def)
  assume i: "d = of_int i"
  define c where "c = \<lceil>d * Jitter cfg\<rceil>"
  have "d * Jitter cfg \<le> d" using assms(4) j by (simp add: mult_left_le)
  moreover have "0 \<le> d * Jitter cfg" using assms(4) j by simp
  ultimately have c: "0 \<le> c" "c \<le> 2 ^ 53" using assms(6,7) unfolding c_def i by linarith+
  have "f64_mul d (Jitter cfg) \<le> of_int c"
    unfolding f64_mul_def using c by (intro f64.le_rep) (simp_all add: c_def)
  moreover have "0 \<le> f64_mul d (Jitter cfg)" using assms(4) j by (simp add: f64_mul_def float64_nonneg)
  ultimately have "f64_mul d (Jitter cfg) * u \<le> of_int c"
    using assms(2,3) mult_mono [of "f64_mul d (Jitter cfg)" "of_int c" u 1] by simp
  then have jc: "?j \<le> of_int c"
    unfolding f64_mul_def [of _ u] using c by (intro f64.le_rep) simp_all
  show "jittered cfg d u \<le> of_int (min (MaxDelay cfg) (i + c))"
  proof (cases "i + c \<le> 2 ^ 53")
    case True
    have "0 \<le> i" using assms(4) i by simp
    then have "float64_round (of_int (i + c)) = of_int (i + c)" using True c(1) by (intro float64_of_int_exact) simp_all
    then have "f64_add d ?j \<le> of_int (i + c)"
      unfolding f64_add_def using jc i by (intro f64.le_rep) simp_all
    then show ?thesis by (simp add: jittered_def min_def)
  next
    case False
    then show ?thesis using assms(7) by (simp add: jittered_def)
  qed
qed


lemma server_jitter: "0 \<le> float64_round (1 / 10)" "float64_round (1 / 10) \<le> 1"
  using float64_nonneg [of "1 / 10"] f64.le_rep [of "1 / 10" 1] float64_of_int_exact(2) [of 1] by simp_all

lemma server_retry_config_simps [simp]:
  "BaseDelay server_retry_config = 1000000000" "MaxDelay server_retry_config = 30000000000"
  "Multiplier server_retry_config = 2" "MaxAttempts server_retry_config = 5"
  "Jitter server_retry_config = float64_round (1 / 10)"
  using server_jitter by (simp_all add: server_retry_config_def NewEngine_def duration_defs Let_def not_less not_le)




end
