(* ===== verification/Redlock.thy ===== *)
theory Redlock
  imports Floats Encoding
begin

text \<open>
  The distributed lock of \<open>internal/lock/redlock.go\<close>: configuration defaults, the rounds of
  \<open>Acquire\<close>, \<open>Release\<close>. The Redis servers are not part of the repository. What they reply
  is an argument of each round; what the code relies on is stated as \<open>redis_log\<close>, a condition
  on the log of the commands a server performed: \<open>SET NX PX\<close> takes effect only on a key that is
  absent or has outlived its time, and the release script deletes only the caller's own value.
  The lemmas show that two holders of the same lock exclude each other until the first one's
  expiry, with the drift allowance covering fast server clocks and pauses of the client, and
  that a failed \<open>Acquire\<close> has asked every server to forget its value.
\<close>

section \<open>Model\<close>

record lock_config =
  lk_Quorum :: int
  lk_TTL :: duration
  lk_RetryCount :: int
  lk_RetryDelay :: duration
  lk_DriftFactor :: rat

record Lock =
  lock_Resource :: string
  lock_Value :: string
  lock_Expiry :: instant

record 'n Manager =
  mgr_clients :: "'n list"
  mgr_cfg :: lock_config

definition NewManager :: "'n list \<Rightarrow> lock_config \<Rightarrow> 'n Manager" where
  "NewManager clients cfg0 = (let
     cfg1 = (if lk_Quorum cfg0 \<le> 0 then cfg0\<lparr>lk_Quorum := int (length clients) div 2 + 1\<rparr> else cfg0);
     cfg2 = (if lk_TTL cfg1 \<le> 0 then cfg1\<lparr>lk_TTL := 10 * Second\<rparr> else cfg1);
     cfg3 = (if lk_RetryCount cfg2 \<le> 0 then cfg2\<lparr>lk_RetryCount := 3\<rparr> else cfg2);
     cfg4 = (if lk_RetryDelay cfg3 \<le> 0 then cfg3\<lparr>lk_RetryDelay := 200 * Millisecond\<rparr> else cfg3);
     cfg5 = (if lk_DriftFactor cfg4 \<le> 0 then cfg4\<lparr>lk_DriftFactor := float64_round (1 / 100)\<rparr> else cfg4)
   in \<lparr>mgr_clients = clients, mgr_cfg = cfg5\<rparr>)"

datatype redis_cmd = SetNX string string duration | ReleaseScript string string
datatype redis_error = RedisNil | RedisErr string
datatype lock_error = ErrLockToken | ErrLockContext | ErrLockNotAcquired string int

definition generateToken :: "byte list option \<Rightarrow> string option" where
  "generateToken bs = map_option hex_EncodeToString bs"

text \<open>What one round meets: the context ends the wait before it, the clock readings, the replies.\<close>

record 'n acquire_round =
  ar_ctx_done :: bool
  ar_start :: instant
  ar_reply :: "'n \<Rightarrow> redis_error + bool"
  ar_elapsed :: duration
  ar_now :: instant

definition drift_of :: "lock_config \<Rightarrow> duration" where
  "drift_of cfg = int64_of_float (f64_mul (float64_of_int (lk_TTL cfg)) (lk_DriftFactor cfg)) + 2 * Millisecond"

text \<open>The commands sent, in order, are part of the result.\<close>

fun acquire_loop :: "'n Manager \<Rightarrow> string \<Rightarrow> string \<Rightarrow> (nat \<Rightarrow> 'n acquire_round) \<Rightarrow> nat \<Rightarrow> nat \<Rightarrow>
    (lock_error + Lock) \<times> ('n \<times> redis_cmd) list" where
  "acquire_loop m resource val rounds 0 attempt =
     (Inl (ErrLockNotAcquired resource (lk_RetryCount (mgr_cfg m))), [])"
| "acquire_loop m resource val rounds (Suc left) attempt = (let r = rounds attempt in
     if attempt > 0 \<and> ar_ctx_done r then (Inl ErrLockContext, [])
     else let sets = map (\<lambda>n. (n, SetNX resource val (lk_TTL (mgr_cfg m)))) (mgr_clients m);
              acquired = int (length (filter (\<lambda>n. ar_reply r n = Inr True) (mgr_clients m)));
              validity = lk_TTL (mgr_cfg m) - ar_elapsed r - drift_of (mgr_cfg m)
          in if acquired \<ge> lk_Quorum (mgr_cfg m) \<and> validity > 0
             then (Inr \<lparr>lock_Resource = resource, lock_Value = val, lock_Expiry = ar_now r + validity\<rparr>, sets)
             else let (res, cmds) = acquire_loop m resource val rounds left (Suc attempt)
                  in (res, sets @ map (\<lambda>n. (n, ReleaseScript resource val)) (mgr_clients m) @ cmds))"

definition Acquire :: "'n Manager \<Rightarrow> byte list option \<Rightarrow> (nat \<Rightarrow> 'n acquire_round) \<Rightarrow> string \<Rightarrow>
    (lock_error + Lock) \<times> ('n \<times> redis_cmd) list" where
  "Acquire m rand rounds resource = (case generateToken rand of
     None \<Rightarrow> (Inl ErrLockToken, [])
   | Some val \<Rightarrow> acquire_loop m resource val rounds (nat (lk_RetryCount (mgr_cfg m))) 0)"

definition Release :: "'n Manager \<Rightarrow> Lock \<Rightarrow> ('n \<Rightarrow> redis_error option) \<Rightarrow> redis_error list \<times> ('n \<times> redis_cmd) list" where
  "Release m lck reply =
     ([e. n \<leftarrow> mgr_clients m, e \<leftarrow> (case reply n of None \<Rightarrow> [] | Some err \<Rightarrow> if err \<noteq> RedisNil then [err] else [])],
      map (\<lambda>n. (n, ReleaseScript (lock_Resource lck) (lock_Value lck))) (mgr_clients m))"

text \<open>The manager of \<open>cmd/server/main.go\<close>.\<close>

definition server_lock_config :: lock_config where
  "server_lock_config = \<lparr>lk_Quorum = 0, lk_TTL = 30 * Second, lk_RetryCount = 3,
     lk_RetryDelay = 100 * Millisecond, lk_DriftFactor = float64_round (1 / 100)\<rparr>"

section \<open>The servers\<close>

text \<open>
  A log lists what a server did, latest first: the time, the command, and whether it took
  effect. The clock of the server may let a key go up to \<open>\<epsilon>\<close> before its time on the clients' clock.
\<close>

type_synonym redis_entry = "instant \<times> redis_cmd \<times> bool"

fun key_free :: "duration \<Rightarrow> string \<Rightarrow> instant \<Rightarrow> redis_entry list \<Rightarrow> bool" where
  "key_free \<epsilon> k t [] = True"
| "key_free \<epsilon> k t ((s, SetNX k' v ttl, eff) # es) = (if eff \<and> k' = k then s + ttl - \<epsilon> \<le> t else key_free \<epsilon> k t es)"
| "key_free \<epsilon> k t ((s, ReleaseScript k' v, eff) # es) = (if eff \<and> k' = k then True else key_free \<epsilon> k t es)"

fun key_value :: "string \<Rightarrow> redis_entry list \<Rightarrow> string option" where
  "key_value k [] = None"
| "key_value k ((s, SetNX k' v ttl, eff) # es) = (if eff \<and> k' = k then Some v else key_value k es)"
| "key_value k ((s, ReleaseScript k' v, eff) # es) = (if eff \<and> k' = k then None else key_value k es)"

fun redis_log :: "duration \<Rightarrow> redis_entry list \<Rightarrow> bool" where
  "redis_log \<epsilon> [] = True"
| "redis_log \<epsilon> ((t, c, eff) # es) \<longleftrightarrow> redis_log \<epsilon> es \<and> (\<forall>e \<in> set es. fst e \<le> t) \<and>
     (eff \<longrightarrow> (case c of SetNX k v ttl \<Rightarrow> key_free \<epsilon> k t es | ReleaseScript k v \<Rightarrow> key_value k es = Some v))"

lemma set_after_expiry:
  assumes "redis_log \<epsilon> (post @ (s, SetNX k v ttl, True) # pre)" and "\<forall>t. (t, ReleaseScript k v, True) \<notin> set post"
  shows "((\<forall>t. key_free \<epsilon> k t (post @ (s, SetNX k v ttl, True) # pre) = (s + ttl - \<epsilon> \<le> t)) \<and>
        key_value k (post @ (s, SetNX k v ttl, True) # pre) = Some v \<or> (\<exists>e \<in> set post. s + ttl - \<epsilon> \<le> fst e)) \<and>
      (\<forall>u w ttl'. (u, SetNX k w ttl', True) \<in> set post \<longrightarrow> s + ttl - \<epsilon> \<le> u)"
  using assms
proof (induction post)
  case (Cons e post)
  obtain t c eff where e: "e = (t, c, eff)" by (cases e)
  show ?case
    using Cons.IH Cons.prems unfolding e
    by (cases c; cases eff) (auto dest: order_trans)
qed simp

lemma later_set_after_expiry:
  assumes "redis_log \<epsilon> (post @ (s, SetNX k v ttl, True) # pre)" and "\<forall>t. (t, ReleaseScript k v, True) \<notin> set post"
    and "(u, SetNX k w ttl', True) \<in> set post"
  shows "s + ttl - \<epsilon> \<le> u"
  using set_after_expiry [OF assms(1,2)] assms(3) by blast

section \<open>Acquiring\<close>

definition won_round :: "'n Manager \<Rightarrow> 'n acquire_round \<Rightarrow> bool" where
  "won_round m r \<longleftrightarrow> lk_Quorum (mgr_cfg m) \<le> int (length (filter (\<lambda>n. ar_reply r n = Inr True) (mgr_clients m))) \<and>
     0 < lk_TTL (mgr_cfg m) - ar_elapsed r - drift_of (mgr_cfg m)"

definition win_round :: "'n Manager \<Rightarrow> (nat \<Rightarrow> 'n acquire_round) \<Rightarrow> nat option" where
  "win_round m rounds = find (\<lambda>j. won_round m (rounds j)) [0..<nat (lk_RetryCount (mgr_cfg m))]"

lemma acquire_loop_Suc:
  "acquire_loop m resource val rounds (Suc left) attempt =
    (let sets = map (\<lambda>n. (n, SetNX resource val (lk_TTL (mgr_cfg m)))) (mgr_clients m) in
     if attempt > 0 \<and> ar_ctx_done (rounds attempt) then (Inl ErrLockContext, [])
     else if won_round m (rounds attempt) then
       (Inr \<lparr>lock_Resource = resource, lock_Value = val, lock_Expiry = ar_now (rounds attempt) +
          (lk_TTL (mgr_cfg m) - ar_elapsed (rounds attempt) - drift_of (mgr_cfg m))\<rparr>, sets)
     else let (res, cmds) = acquire_loop m resource val rounds left (Suc attempt)
          in (res, sets @ map (\<lambda>n. (n, ReleaseScript resource val)) (mgr_clients m) @ cmds))"
  by (simp add: won_round_def Let_def)

lemma acquire_loop_Inr:
  assumes "acquire_loop m resource val rounds left attempt = (Inr lck, cmds)"
  shows "\<exists>j. find (\<lambda>j. won_round m (rounds j)) [attempt..<attempt + left] = Some j \<and> won_round m (rounds j) \<and>
    lck = \<lparr>lock_Resource = resource, lock_Value = val,
      lock_Expiry = ar_now (rounds j) + (lk_TTL (mgr_cfg m) - ar_elapsed (rounds j) - drift_of (mgr_cfg m))\<rparr>"
  using assms
proof (induction left arbitrary: attempt cmds)
  case (Suc left)
  have "[attempt..<attempt + Suc left] = attempt # [Suc attempt..<Suc attempt + left]" by (simp add: upt_conv_Cons)
  then show ?case
    using Suc.prems Suc.IH [of "Suc attempt"]
    by (auto simp: acquire_loop_Suc Let_def simp del: acquire_loop.simps upt_Suc split: if_splits prod.splits)
qed simp

lemma Acquire_Inr:
  assumes "Acquire m rand rounds resource = (Inr lck, cmds)"
  shows "\<exists>j. win_round m rounds = Some j \<and> won_round m (rounds j) \<and> lock_Resource lck = resource \<and>
    lock_Expiry lck = ar_now (rounds j) + (lk_TTL (mgr_cfg m) - ar_elapsed (rounds j) - drift_of (mgr_cfg m))"
proof -
  obtain val where "acquire_loop m resource val rounds (nat (lk_RetryCount (mgr_cfg m))) 0 = (Inr lck, cmds)"
    using assms by (auto simp: Acquire_def split: option.splits)
  from acquire_loop_Inr [OF this] show ?thesis by (auto simp: win_round_def)
qed

lemma filter_clients_snoc:
  assumes "n \<in> set ns"
  shows "\<exists>xs. filter (\<lambda>c. fst c = n) (map (\<lambda>n. (n, f)) ns) = xs @ [(n, f)]"
proof -
  have "filter (\<lambda>c. fst c = n) (map (\<lambda>n. (n, f)) ns) = map (\<lambda>n. (n, f)) (filter (\<lambda>m. m = n) ns)"
    by (simp add: filter_map comp_def)
  also have "\<dots> = replicate (length (filter (\<lambda>m. m = n) ns)) (n, f)"
    by (rule replicate_eqI) auto
  moreover have "filter (\<lambda>m. m = n) ns \<noteq> []" using assms by (auto simp: filter_empty_conv)
  ultimately show ?thesis
    by (metis length_0_conv not0_implies_Suc replicate_Suc replicate_append_same)
qed

text \<open>A failed \<open>Acquire\<close> has, as its last word to every server it asked, told it to forget the value.\<close>

lemma acquire_loop_Inl:
  assumes "acquire_loop m resource val rounds left attempt = (Inl err, cmds)"
  shows "cmds = [] \<or> (\<forall>n \<in> set (mgr_clients m). \<exists>xs. filter (\<lambda>c. fst c = n) cmds = xs @ [(n, ReleaseScript resource val)])"
  using assms
proof (induction left arbitrary: attempt cmds)
  case (Suc left)
  show ?case
  proof (cases "attempt > 0 \<and> ar_ctx_done (rounds attempt)")
    case False
    then have "\<not> won_round m (rounds attempt)"
      using Suc.prems by (auto simp: acquire_loop_Suc Let_def simp del: acquire_loop.simps split: if_splits)
    then obtain rest where rest: "acquire_loop m resource val rounds left (Suc attempt) = (Inl err, rest)"
      and cmds: "cmds = map (\<lambda>n. (n, SetNX resource val (lk_TTL (mgr_cfg m)))) (mgr_clients m) @
        map (\<lambda>n. (n, ReleaseScript resource val)) (mgr_clients m) @ rest"
      using Suc.prems False by (auto simp: acquire_loop_Suc Let_def simp del: acquire_loop.simps split: prod.splits)
    show ?thesis
    proof (intro disjI2 ballI)
      fix n assume n: "n \<in> set (mgr_clients m)"
      from Suc.IH [OF rest] n obtain zs where "rest = [] \<or> filter (\<lambda>c. fst c = n) rest = zs @ [(n, ReleaseScript resource val)]"
        by blast
      with filter_clients_snoc [OF n, of "ReleaseScript resource val"] show "\<exists>xs. filter (\<lambda>c. fst c = n) cmds = xs @ [(n, ReleaseScript resource val)]"
        unfolding cmds filter_append by (elim disjE exE) (simp_all only: filter.simps append_Nil2 append_assoc [symmetric], blast+)
    qed
  qed (use Suc.prems in \<open>auto simp: acquire_loop_Suc Let_def simp del: acquire_loop.simps\<close>)
qed simp

section \<open>Mutual exclusion\<close>

text \<open>
  The servers performed what they acknowledged: a reply OK of the round means the command is in
  the server's log, between the start and the end of the round, and no release of the value
  took effect there since.
\<close>

definition held_on :: "('n \<Rightarrow> redis_entry list) \<Rightarrow> 'n Manager \<Rightarrow> Lock \<Rightarrow> 'n acquire_round \<Rightarrow> bool" where
  "held_on logs m lck r \<longleftrightarrow> (\<forall>n \<in> set (mgr_clients m). ar_reply r n = Inr True \<longrightarrow>
     (\<exists>post t pre. logs n = post @ (t, SetNX (lock_Resource lck) (lock_Value lck) (lk_TTL (mgr_cfg m)), True) # pre \<and>
        ar_start r \<le> t \<and> t \<le> ar_start r + ar_elapsed r \<and>
        (\<forall>u. (u, ReleaseScript (lock_Resource lck) (lock_Value lck), True) \<notin> set post)))"

lemma majorities_meet:
  assumes "A \<subseteq> S" and "B \<subseteq> S" and "finite S" and "card S < card A + card B"
  shows "\<exists>x. x \<in> A \<and> x \<in> B"
proof (rule ccontr)
  assume "\<nexists>x. x \<in> A \<and> x \<in> B"
  then have "card A + card B = card (A \<union> B)"
    using card_Un_disjoint [of A B] assms by (metis disjoint_iff finite_subset)
  also have "\<dots> \<le> card S" using assms by (intro card_mono) auto
  finally show False using assms(4) by simp
qed

lemma won_majority:
  assumes "m = NewManager nodes cfg" and "lk_Quorum cfg \<le> 0" and "distinct nodes" and "won_round m r"
  shows "length nodes < 2 * card {n \<in> set nodes. ar_reply r n = Inr True}"
proof -
  have "mgr_clients m = nodes" "lk_Quorum (mgr_cfg m) = int (length nodes) div 2 + 1"
    using assms(1,2) by (simp_all add: NewManager_def Let_def)
  moreover have "length (filter (\<lambda>n. ar_reply r n = Inr True) nodes) = card {n \<in> set nodes. ar_reply r n = Inr True}"
    using assms(3) distinct_card [of "filter (\<lambda>n. ar_reply r n = Inr True) nodes"] by simp
  ultimately show ?thesis using assms(4) by (simp add: won_round_def) linarith
qed

lemma two_positions: "p @ a # q = p' @ b # q' \<Longrightarrow> a \<noteq> b \<Longrightarrow> b \<in> set p \<or> a \<in> set p'"
  by (auto simp: append_eq_append_conv2 Cons_eq_append_conv append_eq_Cons_conv)

text \<open>Of two holders on one server, the later took the key after the earlier one's time there was over.\<close>

lemma holders_on_server:
  assumes "redis_log \<epsilon> entries" and "v \<noteq> w"
    and "entries = post @ (t, SetNX k v ttl, True) # pre" and "\<forall>u. (u, ReleaseScript k v, True) \<notin> set post"
    and "entries = post' @ (t', SetNX k w ttl', True) # pre'" and "\<forall>u. (u, ReleaseScript k w, True) \<notin> set post'"
  shows "t + ttl - \<epsilon> \<le> t' \<or> t' + ttl' - \<epsilon> \<le> t"
proof -
  have "(t', SetNX k w ttl', True) \<in> set post \<or> (t, SetNX k v ttl, True) \<in> set post'"
    by (rule two_positions [OF trans [OF assms(3) [symmetric] assms(5)]]) (use assms(2) in simp)
  then show ?thesis
    using later_set_after_expiry [of \<epsilon> post t k v ttl pre] later_set_after_expiry [of \<epsilon> post' t' k w ttl' pre'] assms
    by metis
qed

text \<open>
  C10: Two holders of one lock exclude each other. Two managers over the same servers, with the
  default quorum, acquire the same resource under different values, and neither releases it. Then
  the lock of one had expired, by the expiry time it was given, no later than the end of the round
  in which the other was acquired. The servers' clocks may be fast by \<open>\<epsilon>\<close>, and the clients may
  pause between the two clock readings of the winning round, as long as both together stay
  within the drift allowance of the code.
\<close>

theorem redlock_exclusion:
  assumes "distinct nodes" and "distinct nodes'" and "set nodes' = set nodes"
    and "m = NewManager nodes cfg" "lk_Quorum cfg \<le> 0" and "m' = NewManager nodes' cfg'" "lk_Quorum cfg' \<le> 0"
    and "Acquire m rand rounds resource = (Inr lck, cmds)" "win_round m rounds = Some j"
    and "Acquire m' rand' rounds' resource = (Inr lck', cmds')" "win_round m' rounds' = Some j'"
    and "lock_Value lck \<noteq> lock_Value lck'"
    and "\<forall>n \<in> set nodes. redis_log \<epsilon> (logs n)" and "held_on logs m lck (rounds j)" "held_on logs m' lck' (rounds' j')"
    and "ar_now (rounds j) - (ar_start (rounds j) + ar_elapsed (rounds j)) + \<epsilon> \<le> drift_of (mgr_cfg m)"
    and "ar_now (rounds' j') - (ar_start (rounds' j') + ar_elapsed (rounds' j')) + \<epsilon> \<le> drift_of (mgr_cfg m')"
  shows "lock_Expiry lck \<le> ar_start (rounds' j') + ar_elapsed (rounds' j') \<or>
    lock_Expiry lck' \<le> ar_start (rounds j) + ar_elapsed (rounds j)"
proof -
  let ?r = "rounds j" and ?r' = "rounds' j'"
  have A: "won_round m ?r" "lock_Resource lck = resource"
    "lock_Expiry lck = ar_now ?r + (lk_TTL (mgr_cfg m) - ar_elapsed ?r - drift_of (mgr_cfg m))"
    using Acquire_Inr [OF assms(8)] assms(9) by auto
  have B: "won_round m' ?r'" "lock_Resource lck' = resource"
    "lock_Expiry lck' = ar_now ?r' + (lk_TTL (mgr_cfg m') - ar_elapsed ?r' - drift_of (mgr_cfg m'))"
    using Acquire_Inr [OF assms(10)] assms(11) by auto
  have cl: "mgr_clients m = nodes" "mgr_clients m' = nodes'" using assms(4,6) by (simp_all add: NewManager_def Let_def)
  have "length nodes' = length nodes" using assms(1-3) distinct_card by metis
  then have "card (set nodes) < card {n \<in> set nodes. ar_reply ?r n = Inr True} + card {n \<in> set nodes. ar_reply ?r' n = Inr True}"
    using won_majority [OF assms(4,5,1) A(1)] won_majority [OF assms(6,7,2) B(1)] assms(1,3) distinct_card [of nodes] by simp
  then obtain n where n: "n \<in> set nodes" "ar_reply ?r n = Inr True" "ar_reply ?r' n = Inr True"
    using majorities_meet [of "{n \<in> set nodes. ar_reply ?r n = Inr True}" "set nodes" "{n \<in> set nodes. ar_reply ?r' n = Inr True}"]
    by blast
  from assms(14) n cl obtain post t pre where a: "logs n = post @ (t, SetNX resource (lock_Value lck) (lk_TTL (mgr_cfg m)), True) # pre"
    "ar_start ?r \<le> t" "t \<le> ar_start ?r + ar_elapsed ?r" "\<forall>u. (u, ReleaseScript resource (lock_Value lck), True) \<notin> set post"
    unfolding held_on_def A(2) by blast
  from assms(3,15) n cl obtain post' t' pre' where b: "logs n = post' @ (t', SetNX resource (lock_Value lck') (lk_TTL (mgr_cfg m')), True) # pre'"
    "ar_start ?r' \<le> t'" "t' \<le> ar_start ?r' + ar_elapsed ?r'" "\<forall>u. (u, ReleaseScript resource (lock_Value lck'), True) \<notin> set post'"
    unfolding held_on_def B(2) by blast
  have "t + lk_TTL (mgr_cfg m) - \<epsilon> \<le> t' \<or> t' + lk_TTL (mgr_cfg m') - \<epsilon> \<le> t"
    using holders_on_server [OF _ assms(12) a(1,4) b(1,4)] assms(13) n(1) by blast
  then show ?thesis using A(3) B(3) a(2,3) b(2,3) assms(16,17) by linarith
qed

text \<open>Three servers; a first holder at time 0 that never releases, and a second one 31 seconds later.\<close>

definition sample_lock_config :: lock_config where
  "sample_lock_config = server_lock_config\<lparr>lk_DriftFactor := 1 / 2\<rparr>"

definition sample_round :: "instant \<Rightarrow> nat \<Rightarrow> nat acquire_round" where
  "sample_round t k = \<lparr>ar_ctx_done = False, ar_start = t, ar_reply = (\<lambda>_. Inr True), ar_elapsed = 0, ar_now = t\<rparr>"

definition sample_log :: "nat \<Rightarrow> redis_entry list" where
  "sample_log n = [(31 * Second, SetNX ''job'' (hex_EncodeToString [2]) (30 * Second), True),
     (0, SetNX ''job'' (hex_EncodeToString [1]) (30 * Second), True)]"

definition sample_manager :: "nat Manager" where
  "sample_manager = NewManager [0, 1, 2] sample_lock_config"

definition sample_lck :: "string \<Rightarrow> byte \<Rightarrow> instant \<Rightarrow> Lock" where
  "sample_lck resource b t = \<lparr>lock_Resource = resource, lock_Value = hex_EncodeToString [b], lock_Expiry = t + 15 * Second - 2 * Millisecond\<rparr>"

lemma sample_lock:
  shows "mgr_clients sample_manager = [0, 1, 2]" "lk_TTL (mgr_cfg sample_manager) = 30 * Second" "drift_of (mgr_cfg sample_manager) = 15 * Second + 2 * Millisecond"
    "win_round sample_manager (sample_round t) = Some 0"
    "Acquire sample_manager (Some [b]) (sample_round t) resource = (Inr (sample_lck resource b t),
       map (\<lambda>n. (n, SetNX resource (hex_EncodeToString [b]) (30 * Second))) [0, 1, 2])"
proof -
  have drift: "int64_of_float (f64_mul (float64_of_int (30 * Second)) (1 / 2)) = 15 * Second"
    using float64_of_int_exact(2) [of "15 * Second"] by (simp add: f64_mul_def int64_of_float_def Second_def Millisecond_def)
  show m: "mgr_clients sample_manager = [0, 1, 2]" "lk_TTL (mgr_cfg sample_manager) = 30 * Second" "drift_of (mgr_cfg sample_manager) = 15 * Second + 2 * Millisecond"
    using drift by (simp_all add: sample_manager_def NewManager_def Let_def sample_lock_config_def server_lock_config_def drift_of_def duration_defs)
  have cfg: "lk_RetryCount (mgr_cfg sample_manager) = 3" "lk_Quorum (mgr_cfg sample_manager) = 2"
    by (simp_all add: sample_manager_def NewManager_def Let_def sample_lock_config_def server_lock_config_def)
  then have won: "won_round sample_manager (sample_round t k)" for k
    by (simp add: won_round_def m sample_round_def Second_def Millisecond_def)
  then show "win_round sample_manager (sample_round t) = Some 0" by (simp add: win_round_def cfg upt_rec)
  show "Acquire sample_manager (Some [b]) (sample_round t) resource = (Inr (sample_lck resource b t),
       map (\<lambda>n. (n, SetNX resource (hex_EncodeToString [b]) (30 * Second))) [0, 1, 2])"
    using won by (simp add: Acquire_def generateToken_def cfg numeral_3_eq_3 acquire_loop_Suc m del: acquire_loop.simps)
      (simp add: sample_round_def sample_lck_def)
qed

theorem redlock_exclusion_witness:
  "\<exists>cmds cmds'. Acquire sample_manager (Some [1]) (sample_round 0) ''job'' = (Inr (sample_lck ''job'' 1 0), cmds) \<and>
     Acquire sample_manager (Some [2]) (sample_round (31 * Second)) ''job'' = (Inr (sample_lck ''job'' 2 (31 * Second)), cmds') \<and>
     (lock_Expiry (sample_lck ''job'' 1 0) \<le> 31 * Second \<or> lock_Expiry (sample_lck ''job'' 2 (31 * Second)) \<le> 0)"
proof -
  have tok: "hex_EncodeToString [1] \<noteq> hex_EncodeToString [2]" by code_simp
  have held: "held_on sample_log sample_manager (sample_lck ''job'' 2 (31 * Second)) (sample_round (31 * Second) 0)"
    by (auto simp: held_on_def sample_lock sample_round_def sample_log_def sample_lck_def
        intro: exI [of _ "[]"])
  have held': "held_on sample_log sample_manager (sample_lck ''job'' 1 0) (sample_round 0 0)"
    by (auto simp: held_on_def sample_lock sample_round_def sample_log_def sample_lck_def
        intro!: exI [of _ "[(31 * Second, SetNX ''job'' (hex_EncodeToString [2]) (30 * Second), True)]"])
  have laws: "\<forall>n \<in> set [0, 1, 2]. redis_log 0 (sample_log n)" by (simp add: sample_log_def Second_def)
  have "lock_Expiry (sample_lck ''job'' 1 0) \<le> ar_start (sample_round (31 * Second) 0) + ar_elapsed (sample_round (31 * Second) 0) \<or>
      lock_Expiry (sample_lck ''job'' 2 (31 * Second)) \<le> ar_start (sample_round 0 0) + ar_elapsed (sample_round 0 0)"
    by (rule redlock_exclusion [OF _ _ _ sample_manager_def _ sample_manager_def _ sample_lock(5,4) sample_lock(5,4) _ laws held' held])
      (use tok in \<open>simp_all add: sample_lock sample_round_def sample_lock_config_def server_lock_config_def sample_lck_def duration_defs\<close>)
  then show ?thesis unfolding sample_lock(5) by (simp add: sample_round_def)
qed

end
