(* ===== verification/Runner.thy ===== *)
theory Runner
  imports Breaker Backoff Redlock Store_Correct
begin

text \<open>
  The job runner of \<open>cmd/server/main.go\<close>: \<open>jobWorker.Run\<close> with everything it calls there, the
  lease renewal that goes on beside the handler, retry scheduling and dead-lettering. It composes
  the circuit breaker, the distributed lock, the retry engine and the store. As in the Go struct
  the store is an interface, here a record of operations; the locale \<open>lease_store\<close> says what the
  runner relies on and is interpreted on the PostgreSQL store. The registered task handlers are
  arguments: what a handler returns depends on the job, its timeout, and the world it meets.
  Logging is left out. The lemmas give the row a run leaves behind for every outcome
  of the handler, show that a worker which lost its lease writes nothing, and that the lock is
  given back on every path.
\<close>

section \<open>Model\<close>

record ('c, 'st) job_store =
  st_UpdateJob :: "'c \<Rightarrow> Job \<Rightarrow> 'st \<Rightarrow> (store_error + unit) \<times> 'st"
  st_RenewLease :: "'c \<Rightarrow> Job \<Rightarrow> duration \<Rightarrow> 'st \<Rightarrow> (store_error + unit) \<times> 'st"
  st_ReleaseClaim :: "'c \<Rightarrow> Job \<Rightarrow> string \<Rightarrow> 'st \<Rightarrow> (store_error + unit) \<times> 'st"

datatype handler_outcome = HandlerOk | HandlerErr go_error | HandlerPanic

type_synonym 'w TaskHandler = "'w \<Rightarrow> duration option \<Rightarrow> Job \<Rightarrow> handler_outcome"

record ('c, 'st, 'w, 'n) jobWorker =
  jw_store :: "('c, 'st) job_store"
  jw_lockMgr :: "'n Manager"
  jw_retry :: retry_config
  jw_handlers :: "string \<rightharpoonup> 'w TaskHandler"
  jw_lease :: duration

definition maxInWorkerSleep :: duration where
  "maxInWorkerSleep = 60 * Second"

definition effectiveLease :: "('c, 'st, 'w, 'n) jobWorker \<Rightarrow> duration" where
  "effectiveLease jw = (if jw_lease jw > 0 then jw_lease jw else 5 * Minute)"

definition newWorkerLeaseToken :: "byte list option \<Rightarrow> string option" where
  "newWorkerLeaseToken rand = map_option hex_EncodeToString rand"

definition releaseClaim :: "('c, 'st, 'w, 'n) jobWorker \<Rightarrow> 'c \<Rightarrow> Job \<Rightarrow> string \<Rightarrow> 'st \<Rightarrow> 'st" where
  "releaseClaim jw c job reason st =
     (if job_State job \<noteq> JobStateRunning \<or> job_LeaseToken job = '''' then st
      else snd (st_ReleaseClaim (jw_store jw) c job reason st))"

definition execute :: "('c, 'st, 'w, 'n) jobWorker \<Rightarrow> 'w \<Rightarrow> Job \<Rightarrow> handler_outcome" where
  "execute jw w job = (case jw_handlers jw (task_Name (job_Task job)) of
     None \<Rightarrow> HandlerErr (GoError (''worker: no handler registered for task '' @ quoted (task_Name (job_Task job)) @ '': '' @ Error ErrNoRetry) [ErrNoRetry])
   | Some handler \<Rightarrow> handler w (if task_Timeout (job_Task job) > 0 then Some (task_Timeout (job_Task job)) else None) job)"

definition worker_shouldRetry :: "retry_config \<Rightarrow> Job \<Rightarrow> go_error \<Rightarrow> bool" where
  "worker_shouldRetry cfg job err =
     (if task_MaxRetries (job_Task job) > 0 then \<not> errors_Is err ErrNoRetry \<and> job_Attempt job < task_MaxRetries (job_Task job)
      else ShouldRetry cfg (job_Attempt job) err)"

subsection \<open>Lease renewal\<close>

text \<open>The lease and the timer interval of the renewal goroutine; none is started for a job without a lease.\<close>

definition startLeaseRenewal :: "('c, 'st, 'w, 'n) jobWorker \<Rightarrow> Job \<Rightarrow> (duration \<times> duration) option" where
  "startLeaseRenewal jw job =
     (if job_State job \<noteq> JobStateRunning \<or> job_LeaseToken job = '''' then None
      else let lease = effectiveLease jw; interval = lease div 2
           in Some (lease, if interval < Second then Second else interval))"

text \<open>
  What happens to the store while the handler runs: steps of other sessions, and ticks of the
  renewal timer, each with the call it makes. A failed renewal ends the goroutine.
\<close>

datatype ('c, 'st) exec_event = Others "'st \<Rightarrow> 'st" | RenewTick 'c

fun renewing :: "('c, 'st, 'w, 'n) jobWorker \<Rightarrow> Job \<Rightarrow> duration option \<Rightarrow> ('c, 'st) exec_event list \<Rightarrow> 'st \<Rightarrow> duration option \<times> 'st" where
  "renewing jw job active [] st = (active, st)"
| "renewing jw job active (Others f # es) st = renewing jw job active es (f st)"
| "renewing jw job active (RenewTick c # es) st = (case active of
     None \<Rightarrow> renewing jw job None es st
   | Some lease \<Rightarrow> (case st_RenewLease (jw_store jw) c job lease st of
       (Inl err, st') \<Rightarrow> renewing jw job None es st'
     | (Inr _, st') \<Rightarrow> renewing jw job active es st'))"

subsection \<open>The environment of a run\<close>

datatype run_error = RunContext | RunToken | RunStore store_error | RunTask go_error
datatype run_result = RunNil | RunErr run_error | RunPanic

record ('c, 'st, 'w, 'n) run_env =
  re_until :: instant
  re_ctx_done :: bool
  re_allow :: instant
  re_release :: 'c
  re_lock_rand :: "byte list option"
  re_rounds :: "nat \<Rightarrow> 'n acquire_round"
  re_unlock :: "'n \<Rightarrow> redis_error option"
  re_now :: instant
  re_rand :: "byte list option"
  re_claim :: 'c
  re_world :: 'w
  re_during :: "('c, 'st) exec_event list"
  re_breaker :: "breaker_event list"
  re_failed_at :: instant
  re_float :: rat
  re_retry_at :: instant
  re_failed :: 'c
  re_gap :: "('c, 'st) exec_event list"
  re_pending :: 'c
  re_dead :: 'c
  re_completed_at :: instant
  re_completed :: 'c

text \<open>
  The state a run works on: the shared breaker, the store, the commands sent to Redis, and the calls
  made on the metrics (without the seconds a duration is observed with).
\<close>

datatype metric_call = WorkerInFlight_Inc | WorkerInFlight_Dec | JobStarted_Inc | JobCompleted_Inc | JobFailed_Inc | JobDuration_Observe

record ('st, 'n) run_state =
  rs_breaker :: breaker
  rs_store :: 'st
  rs_redis :: "('n \<times> redis_cmd) list"
  rs_metrics :: "metric_call list"

definition metered :: "metric_call list \<Rightarrow> ('st, 'n) run_state \<Rightarrow> ('st, 'n) run_state" where
  "metered calls rs = rs\<lparr>rs_metrics := rs_metrics rs @ calls\<rparr>"

definition scheduleRetry :: "('c, 'st, 'w, 'n) jobWorker \<Rightarrow> ('c, 'st, 'w, 'n) run_env \<Rightarrow> duration option \<Rightarrow> Job \<Rightarrow> go_error \<Rightarrow> 'st \<Rightarrow> 'st" where
  "scheduleRetry jw q active job runErr st =
     (let delay = Delay (jw_retry jw) (job_Attempt job) (re_float q);
          nextRun = re_retry_at q + delay;
          job1 = job\<lparr>job_State := JobStateFailed, job_LastError := Error runErr\<rparr>
      in case st_UpdateJob (jw_store jw) (re_failed q) job1 st of
           (Inl err, st1) \<Rightarrow> st1
         | (Inr _, st1) \<Rightarrow>
             (let job2 = job1\<lparr>job_State := JobStatePending, job_ScheduledAt := Some nextRun, job_StartedAt := None, job_LeaseExpiresAt := None\<rparr>
              in snd (st_UpdateJob (jw_store jw) (re_pending q) job2 (snd (renewing jw job active (re_gap q) st1)))))"

definition deadLetter :: "('c, 'st, 'w, 'n) jobWorker \<Rightarrow> 'c \<Rightarrow> Job \<Rightarrow> go_error \<Rightarrow> 'st \<Rightarrow> 'st" where
  "deadLetter jw c job runErr st =
     snd (st_UpdateJob (jw_store jw) c (job\<lparr>job_State := JobStateDead, job_LastError := Error runErr, job_LeaseExpiresAt := None\<rparr>) st)"

subsection \<open>Run\<close>

text \<open>From the running job on: the handler beside the renewals, then the breaker and the store.\<close>

definition Run_running :: "('c, 'st, 'w, 'n) jobWorker \<Rightarrow> ('c, 'st, 'w, 'n) run_env \<Rightarrow> Job \<Rightarrow> ('st, 'n) run_state \<Rightarrow>
    run_result \<times> ('st, 'n) run_state" where
  "Run_running jw q job rs =
     (let rs = metered [WorkerInFlight_Inc, JobStarted_Inc] rs;
          deferred = metered [WorkerInFlight_Dec, JobDuration_Observe];
          (active, st) = renewing jw job (map_option fst (startLeaseRenewal jw job)) (re_during q) (rs_store rs);
          b = fold breaker_step (re_breaker q) (rs_breaker rs);
          rs = rs\<lparr>rs_store := st, rs_breaker := b\<rparr>
      in case execute jw (re_world q) job of
           HandlerPanic \<Rightarrow> (RunPanic, deferred rs)
         | HandlerErr err \<Rightarrow>
             (let rs = metered [JobFailed_Inc] (rs\<lparr>rs_breaker := RecordFailure (re_failed_at q) b\<rparr>)
              in (RunErr (RunTask err),
                  deferred
                    (if worker_shouldRetry (jw_retry jw) job err then rs\<lparr>rs_store := scheduleRetry jw q active job err st\<rparr>
                     else rs\<lparr>rs_store := deadLetter jw (re_dead q) job err st\<rparr>)))
         | HandlerOk \<Rightarrow>
             (let rs = metered [JobCompleted_Inc] (rs\<lparr>rs_breaker := RecordSuccess b\<rparr>);
                  job = job\<lparr>job_State := JobStateCompleted, job_CompletedAt := Some (re_completed_at q), job_LeaseExpiresAt := None\<rparr>
              in case st_UpdateJob (jw_store jw) (re_completed q) job st of
                   (Inl err, st) \<Rightarrow> (RunErr (RunStore err), deferred (rs\<lparr>rs_store := st\<rparr>))
                 | (Inr _, st) \<Rightarrow> (RunNil, deferred (rs\<lparr>rs_store := st\<rparr>))))"

text \<open>Under the lock: a job that is not running yet, as Kafka delivers it, is claimed first.\<close>

definition Run_locked :: "('c, 'st, 'w, 'n) jobWorker \<Rightarrow> ('c, 'st, 'w, 'n) run_env \<Rightarrow> Job \<Rightarrow> ('st, 'n) run_state \<Rightarrow>
    run_result \<times> ('st, 'n) run_state" where
  "Run_locked jw q job rs =
     (if job_State job \<noteq> JobStateRunning then
        (case newWorkerLeaseToken (re_rand q) of
           None \<Rightarrow> (RunErr RunToken, rs)
         | Some leaseToken \<Rightarrow>
             (let job = job\<lparr>job_Attempt := job_Attempt job + 1, job_State := JobStateRunning, job_StartedAt := Some (re_now q),
                    job_LeaseExpiresAt := Some (re_now q + effectiveLease jw), job_LeaseToken := leaseToken\<rparr>
              in case st_UpdateJob (jw_store jw) (re_claim q) job (rs_store rs) of
                   (Inl err, st) \<Rightarrow> (RunErr (RunStore err), rs\<lparr>rs_store := st\<rparr>)
                 | (Inr _, st) \<Rightarrow> Run_running jw q job (rs\<lparr>rs_store := st\<rparr>)))
      else Run_running jw q job rs)"

definition Run :: "('c, 'st, 'w, 'n) jobWorker \<Rightarrow> ('c, 'st, 'w, 'n) run_env \<Rightarrow> Job \<Rightarrow> ('st, 'n) run_state \<Rightarrow>
    run_result \<times> ('st, 'n) run_state" where
  "Run jw q job rs =
     (let wait = (case job_ScheduledAt job of None \<Rightarrow> 0 | Some t \<Rightarrow> t - re_until q)
      in if wait > maxInWorkerSleep then (RunNil, rs)
         else if wait > 0 \<and> re_ctx_done q then (RunErr RunContext, rs)
         else let (allowed, b) = Allow (re_allow q) (rs_breaker rs); rs = rs\<lparr>rs_breaker := b\<rparr>
              in if \<not> allowed then (RunNil, rs\<lparr>rs_store := releaseClaim jw (re_release q) job ''circuit open'' (rs_store rs)\<rparr>)
                 else case Acquire (jw_lockMgr jw) (re_lock_rand q) (re_rounds q) (''job:exec:'' @ job_ID job) of
                        (Inl err, cmds) \<Rightarrow>
                          (RunNil, rs\<lparr>rs_redis := rs_redis rs @ cmds,
                             rs_store := releaseClaim jw (re_release q) job ''could not acquire execution lock'' (rs_store rs)\<rparr>)
                      | (Inr lck, cmds) \<Rightarrow>
                          (let (res, rs) = Run_locked jw q job (rs\<lparr>rs_redis := rs_redis rs @ cmds\<rparr>)
                           in (res, rs\<lparr>rs_redis := rs_redis rs @ snd (Release (jw_lockMgr jw) lck (re_unlock q))\<rparr>)))"

lemma metered_sel [simp]:
  "rs_breaker (metered calls rs) = rs_breaker rs" "rs_store (metered calls rs) = rs_store rs"
  "rs_redis (metered calls rs) = rs_redis rs" "rs_metrics (metered calls rs) = rs_metrics rs @ calls"
  by (simp_all add: metered_def)

section \<open>The store the runner relies on\<close>

text \<open>The row of a job that its holder may write: it can be read back, and its token is the job's.\<close>

definition owned :: "Job \<Rightarrow> row \<Rightarrow> bool" where
  "owned job r \<longleftrightarrow> row_idempotency_key r \<noteq> None \<and> job_LeaseToken job \<noteq> '''' \<and> row_lease_token r = Some (job_LeaseToken job)"

locale lease_store =
  fixes ops :: "('c, 'st) job_store" and undisturbed :: "'c \<Rightarrow> bool" and inv :: "'st \<Rightarrow> bool"
    and view :: "'st \<Rightarrow> string \<Rightarrow> row option" and written :: "'c \<Rightarrow> Job \<Rightarrow> row \<Rightarrow> row"
  assumes update_owned: "inv st \<Longrightarrow> undisturbed c \<Longrightarrow> view st (job_ID job) = Some r \<Longrightarrow> owned job r \<Longrightarrow>
      CanTransition (row_state r) (job_State job) \<Longrightarrow>
      \<exists>st'. st_UpdateJob ops c job st = (Inr (), st') \<and> inv st' \<and> view st' = (view st)(job_ID job \<mapsto> written c job r)"
    and update_stale: "inv st \<Longrightarrow> undisturbed c \<Longrightarrow> view st (job_ID job) = Some r \<Longrightarrow> job_LeaseToken job \<noteq> '''' \<Longrightarrow>
      row_lease_token r \<noteq> Some (job_LeaseToken job) \<Longrightarrow> job_State job \<noteq> JobStateRunning \<Longrightarrow>
      \<exists>e. st_UpdateJob ops c job st = (Inl e, st)"
    and written_state: "row_state (written c job r) = job_State job"
    and written_owned: "owned job r \<Longrightarrow> job_State job = JobStateFailed \<Longrightarrow> owned job (written c job r)"
begin

lemma deadLetter_owned:
  assumes "inv st" and "undisturbed c" and "view st (job_ID job) = Some r" and "owned job r" and "row_state r = JobStateRunning"
    and "jw_store jw = ops"
  shows "view (deadLetter jw c job err st) =
    (view st)(job_ID job \<mapsto> written c (job\<lparr>job_State := JobStateDead, job_LastError := Error err, job_LeaseExpiresAt := None\<rparr>) r)"
proof -
  let ?job = "job\<lparr>job_State := JobStateDead, job_LastError := Error err, job_LeaseExpiresAt := None\<rparr>"
  have "view st (job_ID ?job) = Some r" "owned ?job r" "CanTransition (row_state r) (job_State ?job)"
    using assms(3-5) by (simp_all add: owned_def CanTransition_def)
  from update_owned [OF assms(1,2) this] show ?thesis by (auto simp: deadLetter_def assms(6))
qed

lemma scheduleRetry_owned:
  fixes err :: go_error
  assumes "inv st" and "undisturbed (re_failed q)" "undisturbed (re_pending q)" and "re_gap q = []"
    and "view st (job_ID job) = Some r" and "owned job r" and "row_state r = JobStateRunning" and "jw_store jw = ops"
  defines "job1 \<equiv> job\<lparr>job_State := JobStateFailed, job_LastError := Error err\<rparr>"
  defines "job2 \<equiv> job1\<lparr>job_State := JobStatePending,
    job_ScheduledAt := Some (re_retry_at q + Delay (jw_retry jw) (job_Attempt job) (re_float q)), job_StartedAt := None, job_LeaseExpiresAt := None\<rparr>"
  shows "view (scheduleRetry jw q active job err st) =
    (view st)(job_ID job \<mapsto> written (re_pending q) job2 (written (re_failed q) job1 r))"
proof -
  let ?r1 = "written (re_failed q) job1 r"
  have "view st (job_ID job1) = Some r" "owned job1 r" "CanTransition (row_state r) (job_State job1)"
    using assms(5-7) by (simp_all add: job1_def owned_def CanTransition_def)
  from update_owned [OF assms(1,2) this] obtain st1 where st1: "st_UpdateJob ops (re_failed q) job1 st = (Inr (), st1)" "inv st1"
    "view st1 = (view st)(job_ID job \<mapsto> ?r1)" by (auto simp: job1_def)
  have "view st1 (job_ID job2) = Some ?r1" "owned job2 ?r1" "CanTransition (row_state ?r1) (job_State job2)"
    using st1(3) written_owned [OF \<open>owned job1 r\<close>, of "re_failed q"] written_state [of "re_failed q" job1 r]
    by (simp_all add: job1_def job2_def owned_def CanTransition_def)
  from update_owned [OF st1(2) assms(3) this] st1(3) show ?thesis
    using st1(1) by (auto simp: scheduleRetry_def assms(4,8) job1_def job2_def Let_def)
qed

lemma deadLetter_stale:
  assumes "inv st" and "undisturbed c" and "view st (job_ID job) = Some r" and "job_LeaseToken job \<noteq> ''''"
    and "row_lease_token r \<noteq> Some (job_LeaseToken job)" and "jw_store jw = ops"
  shows "deadLetter jw c job err st = st"
proof -
  let ?job = "job\<lparr>job_State := JobStateDead, job_LastError := Error err, job_LeaseExpiresAt := None\<rparr>"
  have "view st (job_ID ?job) = Some r" "job_LeaseToken ?job \<noteq> ''''" "row_lease_token r \<noteq> Some (job_LeaseToken ?job)"
    "job_State ?job \<noteq> JobStateRunning"
    using assms(3-5) by simp_all
  from update_stale [OF assms(1,2) this] obtain e where "st_UpdateJob ops c ?job st = (Inl e, st)" ..
  then show ?thesis by (simp add: deadLetter_def assms(6))
qed

lemma scheduleRetry_stale:
  assumes "inv st" and "undisturbed (re_failed q)" and "view st (job_ID job) = Some r" and "job_LeaseToken job \<noteq> ''''"
    and "row_lease_token r \<noteq> Some (job_LeaseToken job)" and "jw_store jw = ops"
  shows "scheduleRetry jw q active job err st = st"
proof -
  let ?job = "job\<lparr>job_State := JobStateFailed, job_LastError := Error err\<rparr>"
  have "view st (job_ID ?job) = Some r" "job_LeaseToken ?job \<noteq> ''''" "row_lease_token r \<noteq> Some (job_LeaseToken ?job)"
    "job_State ?job \<noteq> JobStateRunning"
    using assms(3-5) by simp_all
  from update_stale [OF assms(1,2) this] obtain e where "st_UpdateJob ops (re_failed q) ?job st = (Inl e, st)" ..
  then show ?thesis by (simp add: scheduleRetry_def assms(6) Let_def)
qed

end

section \<open>The PostgreSQL store as provider\<close>

definition pg_store :: "pg \<Rightarrow> (call, table) job_store" where
  "pg_store pg = \<lparr>st_UpdateJob = UpdateJob pg, st_RenewLease = RenewLease pg, st_ReleaseClaim = ReleaseClaim pg\<rparr>"

definition undisturbed_call :: "call \<Rightarrow> bool" where
  "undisturbed_call c \<longleftrightarrow> c_fault c = None \<and> c_fault2 c = None \<and> c_between c = id"

lemma UpdateJob_owned:
  assumes "table_inv tbl" and "undisturbed_call c" and "lookup_row (job_ID job) tbl = Some r" and "owned job r"
    and "CanTransition (row_state r) (job_State job)"
  shows "\<exists>tbl'. UpdateJob pg c job tbl = (Inr (), tbl') \<and> table_inv tbl' \<and>
    (\<forall>i. lookup_row i tbl' = (if i = job_ID job then Some (update_set pg c job r) else lookup_row i tbl))"
proof -
  let ?tbl' = "map (\<lambda>q. if update_hit job q then update_set pg c job q else q) tbl"
  have c: "c_fault c = None" "c_fault2 c = None" "c_between c = id" using assms(2) by (simp_all add: undisturbed_call_def)
  obtain existing where "scanJob pg r = Inr existing"
    using assms(4) by (auto simp: owned_def scanJob_def)
  moreover have "update_hit job r"
    using assms(4) lookup_row_Some [OF assms(3)] by (simp add: owned_def update_hit_def)
  ultimately have upd: "UpdateJob pg c job tbl = (Inr (), ?tbl')"
    using UpdateJob_passed [OF assms(3) _ c(1,2) assms(5)] c(3) assms(1,3) by simp
  have "table_inv ?tbl'"
    using table_inv_rowwise [OF row_step_identity [OF UpdateJob_rows [OF assms(1), of c pg job]]] assms(1) c(3) upd by simp
  moreover have "lookup_row i ?tbl' = (if i = job_ID job then Some (update_set pg c job r) else lookup_row i tbl)" for i
    by (rule lookup_row_update_at [where p = "update_hit job", OF _ _ assms(3) \<open>update_hit job r\<close>]) (simp_all add: update_hit_def)
  ultimately show ?thesis using upd by blast
qed

lemma UpdateJob_stale:
  assumes "table_inv tbl" and "undisturbed_call c" and "lookup_row (job_ID job) tbl = Some r" and "job_LeaseToken job \<noteq> ''''"
    and "row_lease_token r \<noteq> Some (job_LeaseToken job)" and "job_State job \<noteq> JobStateRunning"
  shows "\<exists>e. UpdateJob pg c job tbl = (Inl e, tbl)"
proof -
  have "filter (update_hit job) tbl = []"
    using assms(4-6) unfolding update_hit_Nil [OF assms(1)] assms(3) by (simp add: update_hit_def)
  note miss = this update_where_none [OF this]
  show ?thesis using miss assms(2) by (simp add: UpdateJob_def undisturbed_call_def split: sum.split)
qed

interpretation pg_leases: lease_store "pg_store pg" undisturbed_call table_inv "\<lambda>tbl i. lookup_row i tbl" "update_set pg" for pg
proof
  fix c job tbl r
  show "\<exists>tbl'. st_UpdateJob (pg_store pg) c job tbl = (Inr (), tbl') \<and> table_inv tbl' \<and>
      (\<lambda>i. lookup_row i tbl') = (\<lambda>i. lookup_row i tbl)(job_ID job \<mapsto> update_set pg c job r)"
    if "table_inv tbl" "undisturbed_call c" "lookup_row (job_ID job) tbl = Some r" "owned job r" "CanTransition (row_state r) (job_State job)"
  proof -
    note h = that
    obtain tbl' where "UpdateJob pg c job tbl = (Inr (), tbl')" "table_inv tbl'"
      "\<forall>i. lookup_row i tbl' = (if i = job_ID job then Some (update_set pg c job r) else lookup_row i tbl)"
      using UpdateJob_owned [OF h] by blast
    then show ?thesis by (intro exI [of _ tbl']) (simp add: pg_store_def fun_eq_iff)
  qed
  show "\<exists>e. st_UpdateJob (pg_store pg) c job tbl = (Inl e, tbl)"
    if "table_inv tbl" "undisturbed_call c" "lookup_row (job_ID job) tbl = Some r" "job_LeaseToken job \<noteq> ''''"
      "row_lease_token r \<noteq> Some (job_LeaseToken job)" "job_State job \<noteq> JobStateRunning"
    using UpdateJob_stale [OF that, of pg] by (simp add: pg_store_def)
  show "row_state (update_set pg c job r) = job_State job" by (simp add: update_set_def)
  show "owned job r \<Longrightarrow> job_State job = JobStateFailed \<Longrightarrow> owned job (update_set pg c job r)"
    by (simp add: owned_def update_set_def nullableString_def)
qed

section \<open>Runs\<close>

definition reaches_handler :: "('c, 'st, 'w, 'n) jobWorker \<Rightarrow> ('c, 'st, 'w, 'n) run_env \<Rightarrow> Job \<Rightarrow> ('st, 'n) run_state \<Rightarrow> bool" where
  "reaches_handler jw q job rs \<longleftrightarrow> job_State job = JobStateRunning \<and>
     (case job_ScheduledAt job of None \<Rightarrow> True | Some t \<Rightarrow> t \<le> re_until q) \<and> fst (Allow (re_allow q) (rs_breaker rs)) \<and>
     (\<exists>lck cmds. Acquire (jw_lockMgr jw) (re_lock_rand q) (re_rounds q) (''job:exec:'' @ job_ID job) = (Inr lck, cmds))"

text \<open>The paths of \<open>Run\<close> before the handler.\<close>

definition ready :: "('c, 'st, 'w, 'n) run_env \<Rightarrow> Job \<Rightarrow> bool" where
  "ready q job \<longleftrightarrow> (let wait = (case job_ScheduledAt job of None \<Rightarrow> 0 | Some t \<Rightarrow> t - re_until q)
     in \<not> wait > maxInWorkerSleep \<and> \<not> (wait > 0 \<and> re_ctx_done q))"

lemma due_ready: "(case job_ScheduledAt job of None \<Rightarrow> True | Some t \<Rightarrow> t \<le> re_until q) \<Longrightarrow> ready q job"
  by (auto simp: ready_def maxInWorkerSleep_def duration_defs split: option.splits)

lemma Run_not_ready: "\<not> ready q job \<Longrightarrow> Run jw q job rs \<in> {(RunNil, rs), (RunErr RunContext, rs)}"
  by (auto simp: Run_def ready_def Let_def)

lemma Run_refused:
  assumes "ready q job" and "Allow (re_allow q) (rs_breaker rs) = (False, b)"
  shows "Run jw q job rs = (RunNil, rs\<lparr>rs_breaker := b, rs_store := releaseClaim jw (re_release q) job ''circuit open'' (rs_store rs)\<rparr>)"
  using assms by (auto simp: Run_def ready_def Let_def)

lemma Run_unlocked:
  assumes "ready q job" and "Allow (re_allow q) (rs_breaker rs) = (True, b)"
    and "Acquire (jw_lockMgr jw) (re_lock_rand q) (re_rounds q) (''job:exec:'' @ job_ID job) = (Inl err, cmds)"
  shows "Run jw q job rs = (RunNil, rs\<lparr>rs_breaker := b, rs_redis := rs_redis rs @ cmds,
    rs_store := releaseClaim jw (re_release q) job ''could not acquire execution lock'' (rs_store rs)\<rparr>)"
  using assms by (auto simp: Run_def ready_def Let_def)

lemma Run_under_lock:
  assumes "ready q job" and "Allow (re_allow q) (rs_breaker rs) = (True, b)"
    and "Acquire (jw_lockMgr jw) (re_lock_rand q) (re_rounds q) (''job:exec:'' @ job_ID job) = (Inr lck, cmds)"
  shows "Run jw q job rs = (let (res, rs') = Run_locked jw q job (rs\<lparr>rs_breaker := b, rs_redis := rs_redis rs @ cmds\<rparr>)
    in (res, rs'\<lparr>rs_redis := rs_redis rs' @ snd (Release (jw_lockMgr jw) lck (re_unlock q))\<rparr>))"
  using assms by (auto simp: Run_def ready_def Let_def)

lemma Run_paths:
  obtains "\<not> ready q job"
  | b where "ready q job" "Allow (re_allow q) (rs_breaker rs) = (False, b)"
  | b err cmds where "ready q job" "Allow (re_allow q) (rs_breaker rs) = (True, b)"
      "Acquire (jw_lockMgr jw) (re_lock_rand q) (re_rounds q) (''job:exec:'' @ job_ID job) = (Inl err, cmds)"
  | b lck cmds where "ready q job" "Allow (re_allow q) (rs_breaker rs) = (True, b)"
      "Acquire (jw_lockMgr jw) (re_lock_rand q) (re_rounds q) (''job:exec:'' @ job_ID job) = (Inr lck, cmds)"
proof -
  obtain allowed b res cmds where "Allow (re_allow q) (rs_breaker rs) = (allowed, b)"
    "Acquire (jw_lockMgr jw) (re_lock_rand q) (re_rounds q) (''job:exec:'' @ job_ID job) = (res, cmds)"
    by (metis surj_pair)
  then show ?thesis using that by (cases "ready q job"; cases allowed; cases res) simp_all
qed

text \<open>What a run does to the store does not depend on the breaker or on Redis once it reaches the handler.\<close>

lemma Run_running_frame:
  "fst (Run_running jw q job (rs\<lparr>rs_breaker := b, rs_redis := cmds\<rparr>)) = fst (Run_running jw q job rs)"
  "rs_store (snd (Run_running jw q job (rs\<lparr>rs_breaker := b, rs_redis := cmds\<rparr>))) = rs_store (snd (Run_running jw q job rs))"
  "rs_redis (snd (Run_running jw q job rs)) = rs_redis rs"
  by (cases "execute jw (re_world q) job"; simp add: Run_running_def Let_def split_beta split: sum.split)+

lemma Run_reaches:
  assumes "reaches_handler jw q job rs"
  shows "fst (Run jw q job rs) = fst (Run_running jw q job rs)"
    and "rs_store (snd (Run jw q job rs)) = rs_store (snd (Run_running jw q job rs))"
proof -
  obtain lck cmds where acq: "Acquire (jw_lockMgr jw) (re_lock_rand q) (re_rounds q) (''job:exec:'' @ job_ID job) = (Inr lck, cmds)"
    using assms by (auto simp: reaches_handler_def)
  obtain b where b: "Allow (re_allow q) (rs_breaker rs) = (True, b)"
    using assms by (cases "Allow (re_allow q) (rs_breaker rs)") (simp add: reaches_handler_def)
  have "ready q job" using assms by (intro due_ready) (simp add: reaches_handler_def)
  then show "fst (Run jw q job rs) = fst (Run_running jw q job rs)"
    "rs_store (snd (Run jw q job rs)) = rs_store (snd (Run_running jw q job rs))"
    using assms acq b Run_running_frame(1,2) [where jw = jw and q = q and job = job and rs = rs and b = b and cmds = "rs_redis rs @ cmds"]
    by (simp_all add: Run_under_lock Run_locked_def reaches_handler_def split_beta)
qed

lemma Run_running_store:
  assumes "renewing jw job (map_option fst (startLeaseRenewal jw job)) (re_during q) (rs_store rs) = (active, st)"
  shows "rs_store (snd (Run_running jw q job rs)) = (case execute jw (re_world q) job of
      HandlerPanic \<Rightarrow> st
    | HandlerErr err \<Rightarrow> if worker_shouldRetry (jw_retry jw) job err then scheduleRetry jw q active job err st
        else deadLetter jw (re_dead q) job err st
    | HandlerOk \<Rightarrow> snd (st_UpdateJob (jw_store jw) (re_completed q)
        (job\<lparr>job_State := JobStateCompleted, job_CompletedAt := Some (re_completed_at q), job_LeaseExpiresAt := None\<rparr>) st))"
  using assms by (cases "execute jw (re_world q) job") (simp_all add: Run_running_def Let_def split_beta split: sum.split)

definition undisturbed_writes :: "(call, 'st, 'w, 'n) run_env \<Rightarrow> bool" where
  "undisturbed_writes q \<longleftrightarrow> (\<forall>c \<in> {re_failed q, re_pending q, re_dead q, re_completed q}. undisturbed_call c) \<and> re_gap q = []"

definition settled :: "pg \<Rightarrow> (call, table, 'w, 'n) jobWorker \<Rightarrow> (call, table, 'w, 'n) run_env \<Rightarrow> Job \<Rightarrow> row \<Rightarrow> row \<Rightarrow> bool" where
  "settled pg jw q job r r' \<longleftrightarrow> (case execute jw (re_world q) job of
     HandlerPanic \<Rightarrow> r' = r
   | HandlerOk \<Rightarrow> row_state r' = JobStateCompleted \<and> row_lease_token r' = None \<and> row_lease_expires_at r' = None \<and>
       row_completed_at r' = Some (stored pg (re_completed_at q)) \<and> row_attempt r' = job_Attempt job
   | HandlerErr err \<Rightarrow> row_lease_token r' = None \<and> row_lease_expires_at r' = None \<and> row_last_error r' = Error err \<and>
       row_attempt r' = job_Attempt job \<and>
       (if worker_shouldRetry (jw_retry jw) job err
        then row_state r' = JobStatePending \<and> row_scheduled_at r' =
          Some (stored pg (re_retry_at q + Delay (jw_retry jw) (job_Attempt job) (re_float q)))
        else row_state r' = JobStateDead))"

lemma upd_viewD: "(\<lambda>i. f i) = (\<lambda>i. g i)(k \<mapsto> v) \<Longrightarrow> f i = (if i = k then Some v else g i)"
  by (simp add: fun_eq_iff)

lemma Run_settles:
  assumes "jw_store jw = pg_store pg" and "reaches_handler jw q job rs"
    and "renewing jw job (map_option fst (startLeaseRenewal jw job)) (re_during q) (rs_store rs) = (active, tbl)"
    and "table_inv tbl" and "lookup_row (job_ID job) tbl = Some r" and "owned job r" and "row_state r = JobStateRunning"
    and "undisturbed_writes q"
  shows "\<exists>r'. settled pg jw q job r r' \<and>
    (\<forall>i. lookup_row i (rs_store (snd (Run jw q job rs))) = (if i = job_ID job then Some r' else lookup_row i tbl))"
proof -
  have calls: "undisturbed_call (re_failed q)" "undisturbed_call (re_pending q)" "undisturbed_call (re_dead q)"
    "undisturbed_call (re_completed q)" "re_gap q = []"
    using assms(8) by (simp_all add: undisturbed_writes_def)
  note store = Run_reaches(2) [OF assms(2)] Run_running_store [OF assms(3)]
  show ?thesis
  proof (cases "execute jw (re_world q) job")
    case HandlerOk
    let ?job = "job\<lparr>job_State := JobStateCompleted, job_CompletedAt := Some (re_completed_at q), job_LeaseExpiresAt := None\<rparr>"
    have "lookup_row (job_ID ?job) tbl = Some r" "owned ?job r" "CanTransition (row_state r) (job_State ?job)"
      using assms(5-7) by (simp_all add: owned_def CanTransition_def)
    from UpdateJob_owned [OF assms(4) calls(4) this, of pg] HandlerOk store show ?thesis
      by (auto simp: assms(1) pg_store_def settled_def update_set_def intro!: exI [of _ "update_set pg (re_completed q) ?job r"])
  next
    case (HandlerErr err)
    show ?thesis
    proof (cases "worker_shouldRetry (jw_retry jw) job err")
      case True
      have "rs_store (snd (Run jw q job rs)) = scheduleRetry jw q active job err tbl" using store HandlerErr True by simp
      then show ?thesis
        using upd_viewD [OF pg_leases.scheduleRetry_owned [OF assms(4) calls(1,2,5) assms(5-7,1), of active err]] HandlerErr True
        by (intro exI conjI allI) (simp_all add: settled_def update_set_def)
    next
      case False
      have "rs_store (snd (Run jw q job rs)) = deadLetter jw (re_dead q) job err tbl" using store HandlerErr False by simp
      then show ?thesis
        using upd_viewD [OF pg_leases.deadLetter_owned [OF assms(4) calls(3) assms(5-7,1), of err]] HandlerErr False
        by (intro exI conjI allI) (simp_all add: settled_def update_set_def)
    qed
  next
    case HandlerPanic
    then show ?thesis using store assms(5) by (auto simp: settled_def)
  qed
qed

text \<open>
  C7: A worker that still holds the lease when its handler ends settles the job: success leaves it
  COMPLETED, a failure that may be retried leaves it PENDING and due after the backoff delay,
  any other failure leaves it DEAD with the error; the lease is cleared and no other row
  changes. A handler that panics leaves the row as it is, to be recovered when the lease ends.
\<close>

theorem run_settles_job:
  assumes "jw_store jw = pg_store pg" and "reaches_handler jw q job rs"
    and "renewing jw job (map_option fst (startLeaseRenewal jw job)) (re_during q) (rs_store rs) = (active, tbl)"
    and "table_inv tbl" and "lookup_row (job_ID job) tbl = Some r" and "owned job r" and "row_state r = JobStateRunning"
    and "undisturbed_writes q"
  shows "\<exists>r'. settled pg jw q job r r' \<and>
    (\<forall>i. lookup_row i (rs_store (snd (Run jw q job rs))) = (if i = job_ID job then Some r' else lookup_row i tbl))"
  using assms by (rule Run_settles)

text \<open>
  C9: A worker whose lease was lost while its handler ran, because the row now carries another
  token or none, leaves the table exactly as the handler's end found it, whatever the
  handler returned.
\<close>

theorem run_without_lease_writes_nothing:
  assumes "jw_store jw = pg_store pg" and "reaches_handler jw q job rs"
    and "renewing jw job (map_option fst (startLeaseRenewal jw job)) (re_during q) (rs_store rs) = (active, tbl)"
    and "table_inv tbl" and "lookup_row (job_ID job) tbl = Some r" and "job_LeaseToken job \<noteq> ''''"
    and "row_lease_token r \<noteq> Some (job_LeaseToken job)" and "undisturbed_writes q"
  shows "rs_store (snd (Run jw q job rs)) = tbl"
proof -
  have calls: "undisturbed_call (re_failed q)" "undisturbed_call (re_dead q)" "undisturbed_call (re_completed q)"
    using assms(8) by (simp_all add: undisturbed_writes_def)
  let ?job = "job\<lparr>job_State := JobStateCompleted, job_CompletedAt := Some (re_completed_at q), job_LeaseExpiresAt := None\<rparr>"
  have "\<exists>e. UpdateJob pg (re_completed q) ?job tbl = (Inl e, tbl)"
    using assms(5-7) by (intro UpdateJob_stale [OF assms(4) calls(3), of _ r]) simp_all
  then obtain e where "UpdateJob pg (re_completed q) ?job tbl = (Inl e, tbl)" ..
  then show ?thesis
    unfolding Run_reaches(2) [OF assms(2)] Run_running_store [OF assms(3)]
    using pg_leases.scheduleRetry_stale [OF assms(4) calls(1) assms(5-7,1)] pg_leases.deadLetter_stale [OF assms(4) calls(2) assms(5-7,1)]
    by (cases "execute jw (re_world q) job") (simp_all add: assms(1) pg_store_def)
qed

lemma Run_locked_redis: "rs_redis (snd (Run_locked jw q job rs)) = rs_redis rs"
  by (simp add: Run_locked_def Let_def split_beta Run_running_frame(3) split: option.split sum.split)

lemma Acquire_Inl:
  assumes "Acquire m rand rounds resource = (Inl err, cmds)"
  shows "\<exists>val. cmds = [] \<or> (\<forall>n \<in> set (mgr_clients m). \<exists>xs. filter (\<lambda>c. fst c = n) cmds = xs @ [(n, ReleaseScript resource val)])"
proof (cases "generateToken rand")
  case (Some val)
  then show ?thesis using assms by (intro exI [of _ val] acquire_loop_Inl) (simp add: Acquire_def)
qed (use assms in \<open>simp add: Acquire_def\<close>)

lemma filter_append_snoc: "filter p ys = zs @ [z] \<Longrightarrow> \<exists>xs. filter p (us @ ys) = xs @ [z]"
  by simp


text \<open>Beside the handler only renewals: the rows keep their identity, and the worker its lease.\<close>

lemma renew_row:
  assumes "table_inv tbl" and "lookup_row (job_ID job) tbl = Some r" and "holds_lease job r" and "RenewLease pg c job d tbl = (res, tbl')"
  shows "\<exists>r'. lookup_row (job_ID job) tbl' = Some r' \<and> holds_lease job r' \<and> same_identity r r' \<and>
    row_attempt r' = row_attempt r \<and> table_inv tbl'"
proof -
  let ?f = "\<lambda>r. r\<lparr>row_lease_expires_at := Some (stored pg (c_now c + d)), row_updated_at := c_db_now c\<rparr>"
  consider "tbl' = tbl" | "tbl' = map (\<lambda>r. if holds_lease job r then ?f r else r) tbl"
    using RenewLease_cases [of pg c job d tbl] assms(4) by auto
  then show ?thesis
  proof cases
    case 2
    have "lookup_row (job_ID job) tbl' = Some (?f r)"
      unfolding 2 by (subst lookup_row_update) (simp_all add: assms(2,3))
    moreover have "table_inv tbl'" unfolding 2 by (rule table_inv_map_update [OF assms(1)]) (simp add: same_identity_def)
    ultimately show ?thesis using assms(3) by (simp add: holds_lease_def same_identity_def)
  qed (use assms(1-3) in simp)
qed

lemma renewing_ticks:
  assumes "jw_store jw = pg_store pg"
  shows "\<forall>ev \<in> set es. \<exists>c. ev = RenewTick c \<Longrightarrow> table_inv tbl \<Longrightarrow> lookup_row (job_ID job) tbl = Some r \<Longrightarrow> holds_lease job r \<Longrightarrow>
    \<exists>r'. lookup_row (job_ID job) (snd (renewing jw job active es tbl)) = Some r' \<and> holds_lease job r' \<and>
      same_identity r r' \<and> row_attempt r' = row_attempt r \<and> table_inv (snd (renewing jw job active es tbl))"
proof (induction es arbitrary: active tbl r)
  case (Cons ev es)
  then obtain c where ev: "ev = RenewTick c" by auto
  show ?case
  proof (cases active)
    case None
    then show ?thesis using Cons by (simp add: ev)
  next
    case (Some lease)
    obtain res tbl1 where step: "RenewLease pg c job lease tbl = (res, tbl1)" by fastforce
    obtain r1 where r1: "lookup_row (job_ID job) tbl1 = Some r1" "holds_lease job r1" "same_identity r r1"
      "row_attempt r1 = row_attempt r" "table_inv tbl1"
      using renew_row [OF Cons.prems(2-4) step] by blast
    from Cons.IH [OF _ r1(5,1,2)] Cons.prems(1) obtain active' where
      "renewing jw job active (ev # es) tbl = renewing jw job active' es tbl1"
      and ih: "\<And>a. \<exists>r'. lookup_row (job_ID job) (snd (renewing jw job a es tbl1)) = Some r' \<and> holds_lease job r' \<and>
        same_identity r1 r' \<and> row_attempt r' = row_attempt r1 \<and> table_inv (snd (renewing jw job a es tbl1))"
      using step Some by (cases res) (auto simp: ev assms pg_store_def)
    then show ?thesis using ih [of active'] r1(3,4) same_identity_trans [OF r1(3)] by auto
  qed
qed simp

section \<open>Metrics of a run\<close>

text \<open>The outcome a run that reached the handler counts between its start and its deferred calls.\<close>

definition outcome_calls :: "handler_outcome \<Rightarrow> metric_call list" where
  "outcome_calls out = (case out of HandlerOk \<Rightarrow> [JobCompleted_Inc] | HandlerErr err \<Rightarrow> [JobFailed_Inc] | HandlerPanic \<Rightarrow> [])"

definition run_calls :: "handler_outcome \<Rightarrow> metric_call list" where
  "run_calls out = [WorkerInFlight_Inc, JobStarted_Inc] @ outcome_calls out @ [WorkerInFlight_Dec, JobDuration_Observe]"

lemmas run_calls_defs = run_calls_def outcome_calls_def

lemma Run_running_metrics: "rs_metrics (snd (Run_running jw q job rs)) = rs_metrics rs @ run_calls (execute jw (re_world q) job)"
  by (cases "execute jw (re_world q) job") (simp_all add: Run_running_def Let_def split_beta run_calls_defs split: sum.split)

lemma Run_running_panic: "fst (Run_running jw q job rs) = RunPanic \<longleftrightarrow> execute jw (re_world q) job = HandlerPanic"
  by (cases "execute jw (re_world q) job") (simp_all add: Run_running_def Let_def split_beta split: sum.split)

definition counted_run :: "run_result \<times> ('st, 'n) run_state \<Rightarrow> ('st, 'n) run_state \<Rightarrow> bool" where
  "counted_run res rs \<longleftrightarrow> (rs_metrics (snd res) = rs_metrics rs \<and> fst res \<noteq> RunPanic) \<or>
     (\<exists>out. rs_metrics (snd res) = rs_metrics rs @ run_calls out \<and> (fst res = RunPanic \<longleftrightarrow> out = HandlerPanic))"

lemma counted_Run_running: "counted_run (Run_running jw q job rs) rs"
  using Run_running_metrics [of jw q job rs] Run_running_panic [of jw q job rs] by (auto simp: counted_run_def)

lemma counted_Run_locked: "counted_run (Run_locked jw q job rs) rs"
proof -
  have frame: "counted_run (Run_running jw q job' (rs\<lparr>rs_store := st\<rparr>)) rs" for job' st
    using counted_Run_running [of jw q job' "rs\<lparr>rs_store := st\<rparr>"] by (simp add: counted_run_def)
  show ?thesis
    by (simp add: Run_locked_def Let_def split_beta counted_Run_running frame split: option.split sum.split)
      (simp add: counted_run_def)
qed

lemma counted_Run: "counted_run (Run jw q job rs) rs"
proof (cases rule: Run_paths [where q = q and job = job and rs = rs and jw = jw])
  case 1
  from Run_not_ready [OF this, of jw rs] show ?thesis by (auto simp: counted_run_def)
next
  case 2
  then show ?thesis by (simp add: Run_refused counted_run_def)
next
  case 3
  then show ?thesis by (simp add: Run_unlocked counted_run_def)
next
  case (4 b lck cmds)
  show ?thesis
    using counted_Run_locked [of jw q job "rs\<lparr>rs_breaker := b, rs_redis := rs_redis rs @ cmds\<rparr>"]
    unfolding Run_under_lock [OF 4] by (simp add: counted_run_def split_beta)
qed

text \<open>
  C31: The metrics of the runner balance on every path, also when the handler panics or the store
  refuses the final write: a run raises and lowers the in-flight gauge equally often, never lowering
  it first, observes one duration per started job, and every job it counts as started it counts
  as completed or as failed, exactly one of them, unless the handler panicked.
\<close>

theorem run_metrics_balanced:
  "\<exists>new. rs_metrics (snd (Run jw q job rs)) = rs_metrics rs @ new \<and>
     count_list new WorkerInFlight_Inc = count_list new WorkerInFlight_Dec \<and>
     (new = [] \<or> hd new = WorkerInFlight_Inc \<and> count_list new WorkerInFlight_Inc = 1) \<and>
     count_list new JobDuration_Observe = count_list new JobStarted_Inc \<and>
     count_list new JobStarted_Inc = count_list new JobCompleted_Inc + count_list new JobFailed_Inc +
       (if fst (Run jw q job rs) = RunPanic then 1 else 0)"
proof -
  consider "rs_metrics (snd (Run jw q job rs)) = rs_metrics rs @ []" "fst (Run jw q job rs) \<noteq> RunPanic"
    | out where "rs_metrics (snd (Run jw q job rs)) = rs_metrics rs @ run_calls out"
        "fst (Run jw q job rs) = RunPanic \<longleftrightarrow> out = HandlerPanic"
    using counted_Run [of jw q job rs] by (auto simp: counted_run_def)
  then show ?thesis
  proof cases
    case 1
    then show ?thesis by (intro exI [of _ "[]"]) simp
  next
    case (2 out)
    then show ?thesis by (intro exI [of _ "run_calls out"]) (cases out; simp add: run_calls_defs)
  qed
qed

text \<open>
  A job the reconciler claimed and the runner hands back unexecuted, because the circuit is
  open or the execution lock could not be had, is PENDING again but its attempt counter keeps
  the increment of the claim: runs that never reach the handler use up the retry budget.
\<close>

theorem unexecuted_run_counts_attempt:
  assumes "table_inv tbl" and "r \<in> set tbl" and "ClaimNextJob pg c d tbl = (Inr job, rs_store rs)" and "job_ID job = row_id r"
    and "jw_store jw = pg_store pg" and "job_LeaseToken job \<noteq> ''''" and "c_fault (re_release q) = None"
    and "case job_ScheduledAt job of None \<Rightarrow> True | Some t \<Rightarrow> t \<le> re_until q"
    and "\<not> fst (Allow (re_allow q) (rs_breaker rs)) \<or>
      (\<exists>err cmds. Acquire (jw_lockMgr jw) (re_lock_rand q) (re_rounds q) (''job:exec:'' @ job_ID job) = (Inl err, cmds))"
  shows "fst (Run jw q job rs) = RunNil \<and> (\<exists>r'. lookup_row (row_id r) (rs_store (snd (Run jw q job rs))) = Some r' \<and>
    row_state r' = JobStatePending \<and> row_lease_token r' = None \<and> row_attempt r' = row_attempt r + 1)"
proof -
  have row: "job_State job = JobStateRunning" "lookup_row (row_id r) (rs_store rs) = Some (claim_set pg c d (job_LeaseToken job) r)"
  proof -
    obtain r0 where r0: "r0 \<in> set tbl" "job_ID job = row_id r0" "job_State job = JobStateRunning"
      "\<forall>i. lookup_row i (rs_store rs) = (if i = row_id r0 then Some (claim_set pg c d (job_LeaseToken job) r0) else lookup_row i tbl)"
      using claim_row [OF assms(1,3)] by blast
    have "r = r0" using table_inv_idD [OF assms(1,2) r0(1)] assms(4) r0(2) by simp
    then show "job_State job = JobStateRunning" "lookup_row (row_id r) (rs_store rs) = Some (claim_set pg c d (job_LeaseToken job) r)"
      using r0(3,4) by simp_all
  qed
  let ?q = "claim_set pg c d (job_LeaseToken job) r"
  have inv: "table_inv (rs_store rs)"
    using table_inv_rowwise [OF row_step_identity [OF ClaimNextJob_rows [OF assms(1), of pg c d]]] assms(1,3) by simp
  have rel: "\<exists>r'. lookup_row (row_id r) (releaseClaim jw (re_release q) job reason (rs_store rs)) = Some r' \<and>
      row_state r' = JobStatePending \<and> row_lease_token r' = None \<and> row_attempt r' = row_attempt r + 1" for reason
  proof -
    let ?f = "\<lambda>r. r\<lparr>row_state := JobStatePending, row_last_error := reason, row_started_at := None, row_lease_expires_at := None,
        row_lease_token := None, row_updated_at := c_db_now (re_release q)\<rparr>"
    have rel: "releaseClaim jw (re_release q) job reason (rs_store rs) = map (\<lambda>q. if holds_lease job q then ?f q else q) (rs_store rs)"
      using row(1) assms(6,7) by (simp add: releaseClaim_def assms(5) pg_store_def ReleaseClaim_def update_where_def)
    have "holds_lease job ?q" using assms(4) by (simp add: holds_lease_def claim_set_def)
    then have "lookup_row (row_id r) (releaseClaim jw (re_release q) job reason (rs_store rs)) = Some (?f ?q)"
      unfolding rel lookup_row_update [where f = ?f, simplified] row(2) by simp
    then show ?thesis by (simp add: claim_set_def)
  qed
  have "ready q job" using assms(8) by (rule due_ready)
  then show ?thesis
  proof (cases rule: Run_paths [where q = q and job = job and rs = rs and jw = jw])
    case (2 b)
    then show ?thesis using rel by (simp add: Run_refused)
  next
    case (3 b err cmds)
    then show ?thesis using rel by (simp add: Run_unlocked)
  next
    case 4
    then show ?thesis using assms(9) by simp
  qed simp
qed

text \<open>
  A job delivered by Kafka is not executed: it arrives PENDING, and marking it RUNNING starts
  by reading its row, whose NULL lease token the driver refuses. Whatever the handlers are, the
  run ends without calling one and without touching the table.
\<close>

theorem kafka_job_not_started:
  assumes "scan_null pg = Inl e" and "jw_store jw = pg_store pg" and "job_State job \<noteq> JobStateRunning"
    and "lookup_row (job_ID job) (rs_store rs) = Some r" and "row_lease_token r = None"
  shows "rs_store (snd (Run jw q job rs)) = rs_store rs \<and>
    fst (Run jw q job rs) \<in> {RunNil, RunErr RunContext, RunErr RunToken} \<union> range (\<lambda>err. RunErr (RunStore err))"
proof -
  have get: "\<exists>err. GetJob pg c (job_ID job) (rs_store rs) = Inl err" for c
    using assms(1,4,5) by (auto simp: GetJob_lookup scanJob_def scan_text_def split: option.splits sum.splits)
  have upd: "\<exists>err. UpdateJob pg c job' (rs_store rs) = (Inl err, rs_store rs)" if "job_ID job' = job_ID job" for c job'
    using get [of c] that by (auto simp: UpdateJob_def)
  have locked: "rs_store (snd (Run_locked jw q job rs')) = rs_store rs \<and>
      fst (Run_locked jw q job rs') \<in> {RunErr RunToken} \<union> range (\<lambda>err. RunErr (RunStore err))"
    if "rs_store rs' = rs_store rs" for rs'
  proof (cases "newWorkerLeaseToken (re_rand q)")
    case (Some tok)
    obtain err where "UpdateJob pg (re_claim q) (job\<lparr>job_Attempt := job_Attempt job + 1, job_State := JobStateRunning,
        job_StartedAt := Some (re_now q), job_LeaseExpiresAt := Some (re_now q + effectiveLease jw), job_LeaseToken := tok\<rparr>)
        (rs_store rs) = (Inl err, rs_store rs)"
      using upd by fastforce
    then show ?thesis using Some assms(2,3) that by (simp add: Run_locked_def pg_store_def)
  qed (use assms(3) that in \<open>simp add: Run_locked_def\<close>)
  have rel: "releaseClaim jw c job reason st = st" for c reason st using assms(3) by (simp add: releaseClaim_def)
  show ?thesis
  proof (cases rule: Run_paths [where q = q and job = job and rs = rs and jw = jw])
    case 1
    from Run_not_ready [OF this, of jw rs] show ?thesis by auto
  next
    case (4 b lck cmds)
    then show ?thesis using locked [of "rs\<lparr>rs_breaker := b, rs_redis := rs_redis rs @ cmds\<rparr>"]
      by (auto simp: Run_under_lock split_beta)
  next
    case (2 b)
    show ?thesis unfolding Run_refused [OF 2] rel by simp
  next
    case (3 b err cmds)
    show ?thesis unfolding Run_unlocked [OF 3] rel by simp
  qed
qed

section \<open>Renewal keeps the lease\<close>

text \<open>
  A timeline of renewals and of lease recoveries by a reconciler. It is timely when no recovery
  comes later than \<open>window\<close> after the last renewal before it.
\<close>

datatype lease_event = Renewal call | Recovery call int

fun exec_of :: "lease_event \<Rightarrow> (call, table) exec_event" where
  "exec_of (Renewal c) = RenewTick c"
| "exec_of (Recovery c limit) = Others (\<lambda>tbl. snd (RequeueExpiredRunning c limit tbl))"

fun timely :: "duration \<Rightarrow> instant \<Rightarrow> lease_event list \<Rightarrow> bool" where
  "timely window t [] = True"
| "timely window t (Renewal c # es) \<longleftrightarrow> c_fault c = None \<and> timely window (c_now c) es"
| "timely window t (Recovery c limit # es) \<longleftrightarrow> c_db_now c \<le> t + window \<and> timely window t es"

definition leased_until :: "pg \<Rightarrow> Job \<Rightarrow> instant \<Rightarrow> table \<Rightarrow> bool" where
  "leased_until pg job t tbl \<longleftrightarrow> table_inv tbl \<and>
     (\<exists>r. lookup_row (job_ID job) tbl = Some r \<and> holds_lease job r \<and> row_lease_expires_at r = Some (stored pg t))"

lemma renewal_step:
  assumes "leased_until pg job t tbl" and "c_fault c = None" and "job_LeaseToken job \<noteq> ''''"
  shows "\<exists>tbl'. RenewLease pg c job lease tbl = (Inr (), tbl') \<and> leased_until pg job (c_now c + lease) tbl'"
proof -
  let ?f = "\<lambda>r. r\<lparr>row_lease_expires_at := Some (stored pg (c_now c + lease)), row_updated_at := c_db_now c\<rparr>"
  let ?tbl' = "map (\<lambda>r. if holds_lease job r then ?f r else r) tbl"
  obtain r where r: "table_inv tbl" "lookup_row (job_ID job) tbl = Some r" "holds_lease job r"
    using assms(1) by (auto simp: leased_until_def)
  have "filter (holds_lease job) tbl \<noteq> []" using r(2,3) holds_lease_Nil [OF r(1), of job] by simp
  then have res: "RenewLease pg c job lease tbl = (Inr (), ?tbl')"
    using assms(2,3) by (simp add: RenewLease_def update_where_def)
  have "table_inv ?tbl'"
    using table_inv_rowwise [OF row_step_identity [OF RenewLease_rows [of tbl pg c job lease]]] r(1) res by simp
  moreover have "lookup_row (job_ID job) ?tbl' = Some (?f r)"
    unfolding lookup_row_update [where f = ?f, simplified] r(2) using r(3) by simp
  moreover have "holds_lease job (?f r)" using r(3) by (simp add: holds_lease_def)
  ultimately show ?thesis using res by (simp add: leased_until_def)
qed

lemma recovery_step:
  assumes "leased_until pg job t tbl" and "c_db_now c < stored pg t"
  shows "leased_until pg job t (snd (RequeueExpiredRunning c limit tbl))"
proof -
  obtain r where r: "table_inv tbl" "lookup_row (job_ID job) tbl = Some r" "holds_lease job r" "row_lease_expires_at r = Some (stored pg t)"
    using assms(1) by (auto simp: leased_until_def)
  have inv: "table_inv (snd (RequeueExpiredRunning c limit tbl))"
    using table_inv_rowwise [OF row_step_identity [OF RequeueExpiredRunning_rows [OF r(1), of c limit]]] r(1) by simp
  have "r \<in> set (snd (RequeueExpiredRunning c limit tbl))"
    using r assms(2) lookup_row_Some [OF r(2)] by (intro requeue_keeps) (simp_all add: lease_expired_def)
  from lookup_row_mem [OF inv this] have "lookup_row (job_ID job) (snd (RequeueExpiredRunning c limit tbl)) = Some r"
    using lookup_row_Some [OF r(2)] by simp
  then show ?thesis using inv r(3,4) by (simp add: leased_until_def)
qed

text \<open>
  C29: The renewal beside the handler keeps the job: when the lease is two seconds or more, the
  database keeps times to the microsecond, and no lease recovery runs later than one timer
  interval plus \<open>\<delta>\<close> after the last renewal, with \<open>\<delta>\<close> below the rest of the lease, then no
  recovery takes the job from its worker, every renewal succeeds, and the worker still holds
  the lease at the end.
\<close>

theorem renewed_lease_survives:
  assumes "jw_store jw = pg_store pg" and "startLeaseRenewal jw job = Some (lease, interval)" and "2 * Second \<le> lease"
    and "\<forall>t. t - 1000 < stored pg t" and "\<delta> + 1000 \<le> lease - lease div 2" and "timely (interval + \<delta>) t0 es"
    and "leased_until pg job (t0 + lease) tbl"
  shows "\<exists>tbl' t. renewing jw job (Some lease) (map exec_of es) tbl = (Some lease, tbl') \<and> leased_until pg job t tbl'"
proof -
  have tok: "job_LeaseToken job \<noteq> ''''" and iv: "interval = lease div 2"
    using assms(2,3) by (auto simp: startLeaseRenewal_def Let_def duration_defs split: if_splits)
  show ?thesis using assms(6,7)
  proof (induction es arbitrary: t0 tbl)
    case (Cons e es)
    show ?case
    proof (cases e)
      case (Renewal c)
      then obtain tbl' where "RenewLease pg c job lease tbl = (Inr (), tbl')" "leased_until pg job (c_now c + lease) tbl'"
        using renewal_step [OF Cons.prems(2) _ tok, of c lease] Cons.prems(1) by auto
      then show ?thesis using Cons.IH [of "c_now c" tbl'] Cons.prems(1) Renewal assms(1) by (simp add: pg_store_def)
    next
      case (Recovery c limit)
      have "c_db_now c < stored pg (t0 + lease)"
        using Cons.prems(1) Recovery assms(4) [rule_format, of "t0 + lease"] assms(5) iv by simp
      from Cons.IH [OF _ recovery_step [OF Cons.prems(2) this, of limit]] Cons.prems(1) Recovery show ?thesis by simp
    qed
  qed auto
qed

section \<open>A concrete run\<close>

definition sample_worker :: "handler_outcome \<Rightarrow> (call, table, unit, nat) jobWorker" where
  "sample_worker outcome = \<lparr>jw_store = pg_store sample_pg, jw_lockMgr = sample_manager, jw_retry = server_retry_config,
     jw_handlers = [''webhook'' \<mapsto> \<lambda>_ _ _. outcome], jw_lease = 0\<rparr>"

definition sample_run_env :: "(call, table, unit, nat) run_env" where
  "sample_run_env = \<lparr>re_until = 9000, re_ctx_done = False, re_allow = 9000, re_release = quiet 9000 [], re_lock_rand = Some [1],
     re_rounds = sample_round 9000, re_unlock = (\<lambda>_. None), re_now = 9000, re_rand = Some [7], re_claim = quiet 9000 [],
     re_world = (), re_during = [], re_breaker = [], re_failed_at = 9000, re_float = 0, re_retry_at = 9000,
     re_failed = quiet 9000 [], re_gap = [], re_pending = quiet 9000 [], re_dead = quiet 9000 [],
     re_completed_at = 9000, re_completed = quiet 9000 []\<rparr>"

definition sample_run_job :: "string \<Rightarrow> Job" where
  "sample_run_job token = zero_Job\<lparr>job_ID := ''j1'', job_State := JobStateRunning, job_LeaseToken := token,
     job_Task := (job_Task zero_Job)\<lparr>task_Name := ''webhook''\<rparr>, job_Attempt := 1\<rparr>"

definition sample_run_state :: "table \<Rightarrow> (table, nat) run_state" where
  "sample_run_state tbl = \<lparr>rs_breaker = New_breaker server_breaker_config, rs_store = tbl, rs_redis = [], rs_metrics = []\<rparr>"

lemma sample_run:
  "jw_store (sample_worker out) = pg_store sample_pg" "job_ID (sample_run_job token) = ''j1''"
  "job_State (sample_run_job token) = JobStateRunning" "job_LeaseToken (sample_run_job token) = token"
  "job_Attempt (sample_run_job token) = 1" "rs_store (sample_run_state tbl) = tbl"
  "execute (sample_worker out) w (sample_run_job token) = out"
  "reaches_handler (sample_worker out) sample_run_env (sample_run_job token) (sample_run_state tbl)"
  "undisturbed_writes sample_run_env"
  "\<exists>active. renewing (sample_worker out) (sample_run_job token) (map_option fst (startLeaseRenewal (sample_worker out) (sample_run_job token)))
     (re_during sample_run_env) tbl = (active, tbl)"
  "lookup_row ''j1'' [sample_row] = Some sample_row"
  by (simp_all add: sample_worker_def sample_run_job_def sample_run_state_def execute_def zero_Job_def zero_Task_def
      reaches_handler_def sample_run_env_def sample_lock(5) Allow_def New_breaker_def server_breaker_config_def Let_def
      undisturbed_writes_def undisturbed_call_def lookup_row_def)

theorem run_settles_job_witness:
  "\<exists>r'. lookup_row ''j1'' (rs_store (snd (Run (sample_worker HandlerOk) sample_run_env (sample_run_job ''t1'') (sample_run_state [sample_row])))) =
     Some r' \<and> row_state r' = JobStateCompleted"
proof -
  obtain active where "renewing (sample_worker HandlerOk) (sample_run_job ''t1'')
      (map_option fst (startLeaseRenewal (sample_worker HandlerOk) (sample_run_job ''t1''))) (re_during sample_run_env)
      (rs_store (sample_run_state [sample_row])) = (active, [sample_row])"
    using sample_run(10) unfolding sample_run(6) by blast
  from run_settles_job [OF sample_run(1,8) this sample_table_inv _ _ _ sample_run(9), of sample_row]
  show ?thesis by (auto simp: sample_run owned_def settled_def)
qed

theorem run_without_lease_writes_nothing_witness:
  "rs_store (snd (Run (sample_worker HandlerOk) sample_run_env (sample_run_job ''t0'') (sample_run_state [sample_row]))) = [sample_row]"
proof -
  obtain active where "renewing (sample_worker HandlerOk) (sample_run_job ''t0'')
      (map_option fst (startLeaseRenewal (sample_worker HandlerOk) (sample_run_job ''t0''))) (re_during sample_run_env)
      (rs_store (sample_run_state [sample_row])) = (active, [sample_row])"
    using sample_run(10) unfolding sample_run(6) by blast
  from run_without_lease_writes_nothing [OF sample_run(1,8) this sample_table_inv _ _ _ sample_run(9), of sample_row]
  show ?thesis by (simp add: sample_run)
qed


definition tripped_state :: "table \<Rightarrow> (table, nat) run_state" where
  "tripped_state tbl = (sample_run_state tbl)\<lparr>rs_breaker := (New_breaker server_breaker_config)\<lparr>cb_state := StateOpen, cb_openedAt := 9000\<rparr>\<rparr>"

theorem unexecuted_run_counts_attempt_witness:
  "\<exists>job tbl r'. ClaimNextJob sample_pg (quiet 9000 [7]) 5000 [sample_pending] = (Inr job, tbl) \<and>
     lookup_row ''j1'' (rs_store (snd (Run (sample_worker HandlerOk) sample_run_env job (tripped_state tbl)))) = Some r' \<and>
     row_state r' = JobStatePending \<and> row_attempt r' = 1"
proof -
  obtain job tbl where claim: "ClaimNextJob sample_pg (quiet 9000 [7]) 5000 [sample_pending] = (Inr job, tbl)"
    and job: "job_ID job = row_id sample_pending" "job_LeaseToken job \<noteq> ''''" "job_ScheduledAt job = Some 3000"
    by (simp add: ClaimNextJob_def newLeaseToken_def select_claim_def claimable_def sample_pending_def scanJob_def claim_set_def)
  have "ClaimNextJob sample_pg (quiet 9000 [7]) 5000 [sample_pending] = (Inr job, rs_store (tripped_state tbl))"
    using claim by (simp add: tripped_state_def sample_run_state_def)
  from unexecuted_run_counts_attempt [OF sample_pending_inv _ this job(1) sample_run(1) job(2), of sample_run_env HandlerOk]
  have "\<exists>r'. lookup_row (row_id sample_pending) (rs_store (snd (Run (sample_worker HandlerOk) sample_run_env job (tripped_state tbl)))) = Some r' \<and>
     row_state r' = JobStatePending \<and> row_lease_token r' = None \<and> row_attempt r' = row_attempt sample_pending + 1"
    by (simp add: sample_run_env_def job(3) tripped_state_def Allow_def New_breaker_def server_breaker_config_def Let_def duration_defs)
  moreover have "row_id sample_pending = ''j1''" "row_attempt sample_pending = 0"
    by (simp_all add: sample_pending_def sample_row_def row_of_job_def zero_Job_def)
  ultimately show ?thesis using claim by auto
qed

theorem kafka_job_not_started_witness:
  "rs_store (snd (Run (sample_worker HandlerOk) sample_run_env (zero_Job\<lparr>job_ID := ''j1'', job_State := JobStatePending\<rparr>)
     (sample_run_state [sample_pending]))) = [sample_pending]"
proof -
  have "scan_null sample_pg = Inl ''cannot scan NULL into *string''" by (simp add: sample_pg_def)
  from kafka_job_not_started [OF this sample_run(1), of "zero_Job\<lparr>job_ID := ''j1'', job_State := JobStatePending\<rparr>"
      "sample_run_state [sample_pending]" sample_pending HandlerOk sample_run_env]
  show ?thesis by (simp add: sample_run(6) lookup_row_def sample_pending_def)
qed

theorem renewed_lease_survives_witness:
  "\<exists>tbl t. renewing (sample_worker HandlerOk) (sample_run_job ''t1'') (Some (5 * Minute))
       (map exec_of [Renewal (quiet (150 * Second) []), Recovery (quiet (301 * Second) []) 100])
       [sample_row\<lparr>row_lease_expires_at := Some (300 * Second)\<rparr>] = (Some (5 * Minute), tbl) \<and>
     leased_until sample_pg (sample_run_job ''t1'') t tbl"
proof (rule renewed_lease_survives)
  show "jw_store (sample_worker HandlerOk) = pg_store sample_pg" by (rule sample_run(1))
  show "startLeaseRenewal (sample_worker HandlerOk) (sample_run_job ''t1'') = Some (5 * Minute, 150 * Second)"
    by (simp add: startLeaseRenewal_def sample_run effectiveLease_def sample_worker_def duration_defs)
  show "2 * Second \<le> 5 * Minute" "100 * Second + 1000 \<le> 5 * Minute - 5 * Minute div 2" by (simp_all add: duration_defs)
  show "\<forall>t. t - 1000 < stored sample_pg t" by (simp add: sample_pg_def)
  show "timely (150 * Second + 100 * Second) 0 [Renewal (quiet (150 * Second) []), Recovery (quiet (301 * Second) []) 100]"
    by (simp add: duration_defs)
  show "leased_until sample_pg (sample_run_job ''t1'') (0 + 5 * Minute) [sample_row\<lparr>row_lease_expires_at := Some (300 * Second)\<rparr>]"
    by (simp add: leased_until_def table_inv_def lookup_row_def holds_lease_def sample_run sample_pg_def duration_defs)
qed

end
