(* ===== verification/Sql_Scan.thy ===== *)
theory Sql_Scan
  imports Go_Strings Go_Errors Encoding
begin

text \<open>
  The check of the extract query in \<open>internal/etl/executor.go\<close>: the scanner \<open>sqlTokens\<close>, the list
  of forbidden keywords and \<open>normalizeExtractSQL\<close>. Texts are ASCII. The lemmas: on a query
  written with the lexemes it knows the scanner returns exactly the words outside literals and
  comments; an accepted query is a trimmed \<open>SELECT\<close> or \<open>WITH\<close> without forbidden words; and a
  query with an escape string shows where the scanner loses track.
\<close>

section \<open>Model\<close>

definition is_letter :: "char \<Rightarrow> bool" where
  "is_letter c \<longleftrightarrow> (let n = of_char c :: nat in 65 \<le> n \<and> n \<le> 90 \<or> 97 \<le> n \<and> n \<le> 122)"

definition word_char :: "char \<Rightarrow> bool" where
  "word_char c \<longleftrightarrow> is_letter c \<or> is_digit c \<or> c = CHR ''_''"

definition forbiddenSQLToken :: "string \<Rightarrow> bool" where
  "forbiddenSQLToken token \<longleftrightarrow> token \<in> {''insert'', ''update'', ''delete'', ''merge'', ''create'', ''alter'', ''drop'',
     ''truncate'', ''copy'', ''grant'', ''revoke'', ''call'', ''do'', ''vacuum'', ''analyze''}"

text \<open>
  The scanner. The four flags of the source, of which at most one is set, are the mode; \<open>b\<close> is
  the buffer of the current word.
\<close>

datatype scan_mode = InCode | InSingleQuote | InDoubleQuote | InLineComment | InBlockComment

definition flush :: "string \<Rightarrow> string list" where
  "flush b = (if b = [] then [] else [ToLower b])"

fun scan_sql :: "scan_mode \<Rightarrow> string \<Rightarrow> string \<Rightarrow> string list" where
  "scan_sql m b [] = flush b"
| "scan_sql InLineComment b (ch # s) = (if ch = CHR 0x0A then scan_sql InCode b s else scan_sql InLineComment b s)"
| "scan_sql InBlockComment b (ch # s) =
     (case s of next # s' \<Rightarrow> if ch = CHR ''*'' \<and> next = CHR ''/'' then scan_sql InCode b s' else scan_sql InBlockComment b s
      | [] \<Rightarrow> scan_sql InBlockComment b s)"
| "scan_sql InSingleQuote b (ch # s) =
     (if ch = CHR 0x27 then
        (case s of next # s' \<Rightarrow> if next = CHR 0x27 then scan_sql InSingleQuote b s' else scan_sql InCode b s
         | [] \<Rightarrow> scan_sql InCode b s)
      else scan_sql InSingleQuote b s)"
| "scan_sql InDoubleQuote b (ch # s) =
     (if ch = CHR 0x22 then
        (case s of next # s' \<Rightarrow> if next = CHR 0x22 then scan_sql InDoubleQuote b s' else scan_sql InCode b s
         | [] \<Rightarrow> scan_sql InCode b s)
      else scan_sql InDoubleQuote b s)"
| "scan_sql InCode b (ch # s) =
     (case s of
        next # s' \<Rightarrow>
          if ch = CHR ''-'' \<and> next = CHR ''-'' then flush b @ scan_sql InLineComment [] s'
          else if ch = CHR ''/'' \<and> next = CHR ''*'' then flush b @ scan_sql InBlockComment [] s'
          else if ch = CHR 0x27 then flush b @ scan_sql InSingleQuote [] s
          else if ch = CHR 0x22 then flush b @ scan_sql InDoubleQuote [] s
          else if word_char ch then scan_sql InCode (b @ [ch]) s
          else flush b @ scan_sql InCode [] s
      | [] \<Rightarrow>
          if ch = CHR 0x27 then flush b @ scan_sql InSingleQuote [] s
          else if ch = CHR 0x22 then flush b @ scan_sql InDoubleQuote [] s
          else if word_char ch then scan_sql InCode (b @ [ch]) s
          else flush b @ scan_sql InCode [] s)"

definition sqlTokens :: "string \<Rightarrow> string list" where
  "sqlTokens sql = scan_sql InCode [] sql"

definition normalizeExtractSQL :: "string \<Rightarrow> go_error + string" where
  "normalizeExtractSQL sql0 =
     (let sql = TrimSpace (TrimSuffix (TrimSpace sql0) '';''); lowerSQL = ToLower sql
      in if \<not> HasPrefix lowerSQL ''select '' \<and> \<not> HasPrefix lowerSQL ''with ''
         then Inl (errors_New ''must start with SELECT or WITH'')
         else let tokens = sqlTokens sql
              in case tokens of
                   [] \<Rightarrow> Inl (errors_New ''empty SQL'')
                 | tok # _ \<Rightarrow>
                     (if tok \<noteq> ''select'' \<and> tok \<noteq> ''with'' then Inl (errors_New ''must start with SELECT or WITH'')
                      else case find forbiddenSQLToken tokens of
                             Some token \<Rightarrow> Inl (errors_New (''forbidden token '' @ quoted token))
                           | None \<Rightarrow> Inr sql))"

section \<open>The scanner\<close>

text \<open>Queries as sequences of lexemes.\<close>

datatype lexeme = Word string | Literal string | QuotedName string | LineComment string | BlockComment string | Symbol char

fun doubled :: "char \<Rightarrow> string \<Rightarrow> string" where
  "doubled q [] = []"
| "doubled q (c # s) = (if c = q then [c, c] else [c]) @ doubled q s"

fun render :: "lexeme \<Rightarrow> string" where
  "render (Word w) = w"
| "render (Literal s) = [CHR 0x27] @ doubled CHR 0x27 s @ [CHR 0x27]"
| "render (QuotedName s) = [CHR 0x22] @ doubled CHR 0x22 s @ [CHR 0x22]"
| "render (LineComment s) = ''--'' @ s @ [CHR 0x0A]"
| "render (BlockComment s) = ''/*'' @ s @ ''*/''"
| "render (Symbol c) = [c]"

fun no_close :: "string \<Rightarrow> bool" where
  "no_close (a # b # s) \<longleftrightarrow> \<not> (a = CHR ''*'' \<and> b = CHR ''/'') \<and> no_close (b # s)"
| "no_close _ \<longleftrightarrow> True"

fun lexeme_ok :: "lexeme \<Rightarrow> bool" where
  "lexeme_ok (Word w) \<longleftrightarrow> w \<noteq> [] \<and> list_all word_char w"
| "lexeme_ok (LineComment s) \<longleftrightarrow> CHR 0x0A \<notin> set s"
| "lexeme_ok (BlockComment s) \<longleftrightarrow> no_close s"
| "lexeme_ok (Symbol c) \<longleftrightarrow> \<not> word_char c \<and> c \<noteq> CHR 0x27 \<and> c \<noteq> CHR 0x22"
| "lexeme_ok _ \<longleftrightarrow> True"

text \<open>What may follow a lexeme without changing where it ends.\<close>

fun may_follow :: "lexeme \<Rightarrow> string \<Rightarrow> bool" where
  "may_follow l [] \<longleftrightarrow> True"
| "may_follow (Word w) (c # s) \<longleftrightarrow> \<not> word_char c"
| "may_follow (Literal x) (c # s) \<longleftrightarrow> c \<noteq> CHR 0x27"
| "may_follow (QuotedName x) (c # s) \<longleftrightarrow> c \<noteq> CHR 0x22"
| "may_follow (Symbol d) (c # s) \<longleftrightarrow> \<not> (d = CHR ''-'' \<and> c = CHR ''-'') \<and> \<not> (d = CHR ''/'' \<and> c = CHR ''*'')"
| "may_follow l (c # s) \<longleftrightarrow> True"

definition render_all :: "lexeme list \<Rightarrow> string" where
  "render_all ls = concat (map render ls)"

fun lexed :: "lexeme list \<Rightarrow> bool" where
  "lexed [] \<longleftrightarrow> True"
| "lexed (l # ls) \<longleftrightarrow> lexeme_ok l \<and> may_follow l (render_all ls) \<and> lexed ls"

fun words :: "lexeme list \<Rightarrow> string list" where
  "words [] = []"
| "words (Word w # ls) = ToLower w # words ls"
| "words (_ # ls) = words ls"

lemma word_char_plain: "word_char c \<Longrightarrow> c \<noteq> CHR ''-'' \<and> c \<noteq> CHR ''/'' \<and> c \<noteq> CHR 0x27 \<and> c \<noteq> CHR 0x22"
  by (auto simp: word_char_def is_letter_def is_digit_def)

text \<open>One step of the scanner in each situation.\<close>

declare scan_sql.simps [simp del]

lemma scan_Nil [simp]: "scan_sql m b [] = flush b"
  by (simp add: scan_sql.simps)

lemma scan_literal_steps [simp]:
  "ch \<noteq> CHR 0x27 \<Longrightarrow> scan_sql InSingleQuote b (ch # s) = scan_sql InSingleQuote b s"
  "scan_sql InSingleQuote b (CHR 0x27 # CHR 0x27 # s) = scan_sql InSingleQuote b s"
  by (simp_all add: scan_sql.simps(4) split: list.split)

lemma scan_literal_end: "s = [] \<or> hd s \<noteq> CHR 0x27 \<Longrightarrow> scan_sql InSingleQuote b (CHR 0x27 # s) = scan_sql InCode b s"
  by (cases s) (simp_all add: scan_sql.simps(4))

lemma scan_quoted_steps [simp]:
  "ch \<noteq> CHR 0x22 \<Longrightarrow> scan_sql InDoubleQuote b (ch # s) = scan_sql InDoubleQuote b s"
  "scan_sql InDoubleQuote b (CHR 0x22 # CHR 0x22 # s) = scan_sql InDoubleQuote b s"
  by (simp_all add: scan_sql.simps(5) split: list.split)

lemma scan_quoted_end: "s = [] \<or> hd s \<noteq> CHR 0x22 \<Longrightarrow> scan_sql InDoubleQuote b (CHR 0x22 # s) = scan_sql InCode b s"
  by (cases s) (simp_all add: scan_sql.simps(5))

lemma scan_line_steps [simp]:
  "ch \<noteq> CHR 0x0A \<Longrightarrow> scan_sql InLineComment b (ch # s) = scan_sql InLineComment b s"
  "scan_sql InLineComment b (CHR 0x0A # s) = scan_sql InCode b s"
  by (simp_all add: scan_sql.simps(2))

lemma scan_block_steps [simp]:
  "\<not> (c = CHR ''*'' \<and> d = CHR ''/'') \<Longrightarrow> scan_sql InBlockComment b (c # d # s) = scan_sql InBlockComment b (d # s)"
  "scan_sql InBlockComment b (CHR ''*'' # CHR ''/'' # s) = scan_sql InCode b s"
  by (auto simp: scan_sql.simps(3))

lemma scan_code_opens [simp]:
  "scan_sql InCode b (CHR ''-'' # CHR ''-'' # s) = flush b @ scan_sql InLineComment [] s"
  "scan_sql InCode b (CHR ''/'' # CHR ''*'' # s) = flush b @ scan_sql InBlockComment [] s"
  "scan_sql InCode b (CHR 0x27 # s) = flush b @ scan_sql InSingleQuote [] s"
  "scan_sql InCode b (CHR 0x22 # s) = flush b @ scan_sql InDoubleQuote [] s"
  by (simp_all add: scan_sql.simps(6) split: list.split)

lemma scan_code_word [simp]: "word_char c \<Longrightarrow> scan_sql InCode b (c # s) = scan_sql InCode (b @ [c]) s"
  using word_char_plain [of c] by (simp add: scan_sql.simps(6) split: list.split)

lemma scan_code_other:
  assumes "\<not> word_char c" "c \<noteq> CHR 0x27" "c \<noteq> CHR 0x22"
    and "s = [] \<or> \<not> (c = CHR ''-'' \<and> hd s = CHR ''-'') \<and> \<not> (c = CHR ''/'' \<and> hd s = CHR ''*'')"
  shows "scan_sql InCode b (c # s) = flush b @ scan_sql InCode [] s"
  unfolding scan_sql.simps(6) [of b c s] using assms by (cases s) auto

lemma flush_Nil [simp]: "flush [] = []"
  by (simp add: flush_def)

lemma scan_word: "list_all word_char w \<Longrightarrow> scan_sql InCode b (w @ s) = scan_sql InCode (b @ w) s"
  by (induction w arbitrary: b) simp_all

lemma scan_flush:
  assumes "s = [] \<or> \<not> word_char (hd s)"
  shows "scan_sql InCode b s = flush b @ scan_sql InCode [] s"
proof (cases s)
  case (Cons c s')
  consider "c \<in> {CHR 0x27, CHR 0x22}" | d s'' where "s' = d # s''" "c = CHR ''-'' \<and> d = CHR ''-'' \<or> c = CHR ''/'' \<and> d = CHR ''*''"
    | "c \<noteq> CHR 0x27" "c \<noteq> CHR 0x22" "s' = [] \<or> \<not> (c = CHR ''-'' \<and> hd s' = CHR ''-'') \<and> \<not> (c = CHR ''/'' \<and> hd s' = CHR ''*'')"
    by (cases s') auto
  then show ?thesis
  proof cases
    case 3
    then show ?thesis using assms Cons scan_code_other [of c s' b] scan_code_other [of c s' "[]"] by simp
  qed (use Cons in auto)
qed simp

lemma scan_literal:
  "s = [] \<or> hd s \<noteq> CHR 0x27 \<Longrightarrow> scan_sql InSingleQuote b (doubled CHR 0x27 x @ CHR 0x27 # s) = scan_sql InCode b s"
  by (induction x) (simp_all add: scan_literal_end)

lemma scan_quoted:
  "s = [] \<or> hd s \<noteq> CHR 0x22 \<Longrightarrow> scan_sql InDoubleQuote b (doubled CHR 0x22 x @ CHR 0x22 # s) = scan_sql InCode b s"
  by (induction x) (simp_all add: scan_quoted_end)

lemma scan_line: "CHR 0x0A \<notin> set x \<Longrightarrow> scan_sql InLineComment b (x @ CHR 0x0A # s) = scan_sql InCode b s"
  by (induction x) auto

lemma scan_block: "no_close x \<Longrightarrow> scan_sql InBlockComment b (x @ ''*/'' @ s) = scan_sql InCode b s"
  by (induction x rule: no_close.induct) auto

lemma scan_symbol:
  assumes "lexeme_ok (Symbol c)" and "may_follow (Symbol c) s"
  shows "scan_sql InCode [] (c # s) = scan_sql InCode [] s"
  using assms scan_code_other [of c s "[]"] by (cases s) simp_all

lemma may_follow_hd: "may_follow l s \<longleftrightarrow> s = [] \<or> (case l of Word w \<Rightarrow> \<not> word_char (hd s)
    | Literal x \<Rightarrow> hd s \<noteq> CHR 0x27 | QuotedName x \<Rightarrow> hd s \<noteq> CHR 0x22 | Symbol d \<Rightarrow> may_follow (Symbol d) s | _ \<Rightarrow> True)"
  by (cases s; cases l) simp_all

lemma scan_lexeme:
  assumes "lexeme_ok l" and "may_follow l s"
  shows "scan_sql InCode [] (render l @ s) = words [l] @ scan_sql InCode [] s"
proof (cases l)
  case (Word w)
  then have "s = [] \<or> \<not> word_char (hd s)" using assms(2) by (simp add: may_follow_hd)
  then show ?thesis using Word assms(1) scan_word [of w "[]" s] scan_flush [of s w] by (simp add: flush_def)
next
  case (Literal x)
  then have "s = [] \<or> hd s \<noteq> CHR 0x27" using assms(2) by (simp add: may_follow_hd)
  then show ?thesis
    using Literal scan_literal [of s "[]" x] by simp
next
  case (QuotedName x)
  then have "s = [] \<or> hd s \<noteq> CHR 0x22" using assms(2) by (simp add: may_follow_hd)
  then show ?thesis
    using QuotedName scan_quoted [of s "[]" x] by simp
next
  case (Symbol c)
  then show ?thesis using assms scan_symbol [of c s] by simp
qed (use assms scan_line [of _ "[]" s] scan_block [of _ "[]" s] in simp_all)

lemma words_append: "words (ls @ ls') = words ls @ words ls'"
  by (induction ls rule: words.induct) simp_all

text \<open>
  C19: The keyword scanner is exact on the SQL it knows: for a query written as a sequence of
  words, literals and quoted names with doubled quotes, comments and other symbols, it
  returns the words in lower case, in order, and nothing from inside literals or comments.
\<close>

theorem sql_tokens_exact:
  assumes "lexed ls"
  shows "sqlTokens (render_all ls) = words ls"
proof -
  have "scan_sql InCode [] (render_all ls) = words ls"
    using assms
  proof (induction ls)
    case (Cons l ls)
    then show ?case using scan_lexeme [of l "render_all ls"] words_append [of "[l]" ls] by (simp add: render_all_def)
  qed (simp add: render_all_def flush_def)
  then show ?thesis by (simp add: sqlTokens_def)
qed

theorem sql_tokens_exact_witness:
  "sqlTokens (render_all [Word ''SELECT'', Symbol CHR '' '', Literal ''it's; delete'', Symbol CHR '' '', LineComment ''drop'', Word ''From'', Symbol CHR '' '', QuotedName ''update'']) =
     [''select'', ''from'']"
proof -
  have w: "list_all word_char ''SELECT''" "list_all word_char ''From''" "\<not> word_char CHR '' ''" "\<not> word_char CHR 0x27" "\<not> word_char CHR 0x22"
    "\<not> word_char CHR ''-''"
    by (simp_all add: word_char_def is_letter_def is_digit_def)
  have low: "ToLower ''SELECT'' = ''select''" "ToLower ''From'' = ''from''"
    by code_simp+
  show ?thesis by (subst sql_tokens_exact) (use w low in \<open>simp_all add: render_all_def\<close>)
qed

section \<open>Accepted queries\<close>

lemma normalizeExtractSQL_Inr:
  assumes "normalizeExtractSQL sql0 = Inr sql"
  shows "sql = TrimSpace (TrimSuffix (TrimSpace sql0) '';'')"
    and "HasPrefix (ToLower sql) ''select '' \<or> HasPrefix (ToLower sql) ''with ''"
    and "\<forall>token \<in> set (sqlTokens sql). \<not> forbiddenSQLToken token"
proof -
  let ?sql = "TrimSpace (TrimSuffix (TrimSpace sql0) '';'')"
  have "find forbiddenSQLToken (sqlTokens ?sql) = None \<and> sql = ?sql \<and> (HasPrefix (ToLower ?sql) ''select '' \<or> HasPrefix (ToLower ?sql) ''with '')"
    using assms by (auto simp: normalizeExtractSQL_def Let_def split: if_splits list.splits option.splits)
  then show "sql = ?sql" "HasPrefix (ToLower sql) ''select '' \<or> HasPrefix (ToLower sql) ''with ''"
    "\<forall>token \<in> set (sqlTokens sql). \<not> forbiddenSQLToken token"
    by (auto simp: find_None_iff)
qed

lemma scan_literal_rest: "CHR 0x27 \<notin> set s \<Longrightarrow> scan_sql InSingleQuote [] s = []"
  by (induction s) auto

text \<open>
  The scanner does not know escape strings: after a literal \<open>E'\''\<close>, which PostgreSQL closes at
  its third quote character, it takes everything up to the next quote for part of the literal,
  so that no keyword there is looked at.
\<close>

theorem escape_string_hides_rest:
  assumes "CHR 0x27 \<notin> set rest"
  shows "sqlTokens (''select E'' @ [CHR 0x27, CHR 0x5C, CHR 0x27, CHR 0x27] @ rest) = [''select'', ''e'']"
proof -
  have w: "list_all word_char ''select''" "list_all word_char ''E''" "\<not> word_char CHR '' ''"
    by (simp_all add: word_char_def is_letter_def is_digit_def)
  have "scan_sql InCode [] (''select'' @ CHR '' '' # ''E'' @ CHR 0x27 # CHR 0x5C # CHR 0x27 # CHR 0x27 # rest) =
      flush ''select'' @ scan_sql InCode [] (''E'' @ CHR 0x27 # CHR 0x5C # CHR 0x27 # CHR 0x27 # rest)"
    unfolding scan_word [OF w(1)] using w(3) by (simp add: scan_code_other)
  also have "scan_sql InCode [] (''E'' @ CHR 0x27 # CHR 0x5C # CHR 0x27 # CHR 0x27 # rest) = flush ''E''"
    unfolding scan_word [OF w(2)] using scan_literal_rest [OF assms] by simp
  finally have "scan_sql InCode [] (''select E'' @ [CHR 0x27, CHR 0x5C, CHR 0x27, CHR 0x27] @ rest) = flush ''select'' @ flush ''E''" by simp
  moreover have "flush ''select'' @ flush ''E'' = [''select'', ''e'']" by code_simp
  ultimately show ?thesis by (simp add: sqlTokens_def)
qed

theorem escape_string_hides_rest_witness:
  "sqlTokens (''select E'' @ [CHR 0x27, CHR 0x5C, CHR 0x27, CHR 0x27] @ ''; delete from jobs'') = [''select'', ''e'']"
  by (rule escape_string_hides_rest) simp

end
