(* ===== verification/Etl.thy ===== *)
theory Etl
  imports Runner Sql_Scan
begin

text \<open>
  The SQL pipeline task of \<open>internal/etl/executor.go\<close>: validation of the specification, the
  construction of the \<open>INSERT\<close> statement, and the task handler; the check of the extract query is in
  \<open>Sql_Scan\<close>. Texts are ASCII. Outside the repository, and
  arguments of the definitions, are the JSON decoder (its result for the payload),
  \<open>pgx.Identifier.Sanitize\<close>, and the execution of the statement. The lemmas: a statement is made of sanitized valid identifiers and a query without
  forbidden words; a bad specification is never retried.
\<close>

section \<open>Model\<close>

record PipelineSpec =
  ExtractSQL :: string
  TargetTable :: string
  TargetColumns :: "string list"
  WriteMode :: string
  ConflictColumns :: "string list"
  UpdateColumns :: "string list"

definition ParseSpec :: "(string \<Rightarrow> go_error + PipelineSpec) \<Rightarrow> string \<Rightarrow> go_error + PipelineSpec" where
  "ParseSpec json_Unmarshal payload =
     (if payload = [] then Inl (errors_New ''task.payload is required'')
      else case json_Unmarshal payload of
        Inl err \<Rightarrow> Inl err
      | Inr spec0 \<Rightarrow>
          (let spec = spec0\<lparr>ExtractSQL := TrimSpace (ExtractSQL spec0), TargetTable := TrimSpace (TargetTable spec0),
                 TargetColumns := map TrimSpace (TargetColumns spec0), WriteMode := TrimSpace (ToLower (WriteMode spec0)),
                 ConflictColumns := map TrimSpace (ConflictColumns spec0), UpdateColumns := map TrimSpace (UpdateColumns spec0)\<rparr>
           in if ExtractSQL spec = [] then Inl (errors_New ''extract_sql is required'')
              else if TargetTable spec = [] then Inl (errors_New ''target_table is required'')
              else if TargetColumns spec = [] then Inl (errors_New ''target_columns is required'')
              else let spec = (if WriteMode spec = [] then spec\<lparr>WriteMode := ''append''\<rparr> else spec)
                   in if WriteMode spec \<noteq> ''append'' \<and> WriteMode spec \<noteq> ''upsert''
                      then Inl (errors_New ''write_mode must be append or upsert'')
                      else if WriteMode spec = ''upsert'' \<and> ConflictColumns spec = []
                      then Inl (errors_New ''conflict_columns is required for upsert'')
                      else Inr spec))"

fun validIdentifierPart :: "string \<Rightarrow> bool" where
  "validIdentifierPart [] \<longleftrightarrow> False"
| "validIdentifierPart (r # rs) \<longleftrightarrow> (r = CHR ''_'' \<or> is_letter r) \<and> list_all word_char rs"

definition parseIdentifier :: "string \<Rightarrow> go_error + string list" where
  "parseIdentifier val =
     (let parts = Split val CHR ''.''
      in if parts = [] \<or> length parts > 3 then Inl (errors_New ''must have one to three parts'')
         else if list_all validIdentifierPart parts then Inr parts
         else Inl (errors_New ''invalid identifier''))"

text \<open>The loop over columns, shared by the two places that write it.\<close>

fun sanitize_columns :: "(string list \<Rightarrow> string) \<Rightarrow> (string \<Rightarrow> go_error \<Rightarrow> go_error) \<Rightarrow> (string \<Rightarrow> go_error) \<Rightarrow>
    string list \<Rightarrow> go_error + string list" where
  "sanitize_columns Sanitize bad qualified [] = Inr []"
| "sanitize_columns Sanitize bad qualified (column # columns) =
     (case parseIdentifier column of
        Inl err \<Rightarrow> Inl (bad column err)
      | Inr identifier \<Rightarrow>
          (if length identifier \<noteq> 1 then Inl (qualified column)
           else case sanitize_columns Sanitize bad qualified columns of
                  Inl err \<Rightarrow> Inl err
                | Inr sanitized \<Rightarrow> Inr (Sanitize identifier # sanitized)))"

definition sanitizeUnqualifiedIdentifiers :: "(string list \<Rightarrow> string) \<Rightarrow> string list \<Rightarrow> go_error + string list" where
  "sanitizeUnqualifiedIdentifiers Sanitize =
     sanitize_columns Sanitize (\<lambda>column err. wrapf (quoted column @ '': '') err)
       (\<lambda>column. errors_New (quoted column @ '': column must be unqualified''))"

definition nonConflictColumns :: "string list \<Rightarrow> string list \<Rightarrow> string list" where
  "nonConflictColumns targetColumns conflictColumns = filter (\<lambda>column. column \<notin> set conflictColumns) targetColumns"

definition BuildInsertSQL :: "(string list \<Rightarrow> string) \<Rightarrow> PipelineSpec \<Rightarrow> go_error + string" where
  "BuildInsertSQL Sanitize spec =
     (let writeMode = (let w = TrimSpace (ToLower (WriteMode spec)) in if w = [] then ''append'' else w)
      in if writeMode \<noteq> ''append'' \<and> writeMode \<noteq> ''upsert'' then Inl (errors_New ''write_mode must be append or upsert'')
         else if writeMode = ''upsert'' \<and> ConflictColumns spec = [] then Inl (errors_New ''conflict_columns is required for upsert'')
         else case parseIdentifier (TargetTable spec) of
           Inl err \<Rightarrow> Inl (wrapf ''target_table: '' err)
         | Inr targetTable \<Rightarrow>
         (case sanitize_columns Sanitize (\<lambda>column err. wrapf (''target_columns: '' @ quoted column @ '': '') err)
                 (\<lambda>_. errors_New ''target column must be unqualified'') (TargetColumns spec) of
           Inl err \<Rightarrow> Inl err
         | Inr targetColumns \<Rightarrow>
         (case sanitizeUnqualifiedIdentifiers Sanitize (ConflictColumns spec) of
           Inl err \<Rightarrow> Inl (wrapf ''conflict_columns: '' err)
         | Inr conflictColumns \<Rightarrow>
         (let updateColumns = (if writeMode = ''upsert'' \<and> UpdateColumns spec = []
                then nonConflictColumns (TargetColumns spec) (ConflictColumns spec) else UpdateColumns spec)
          in case sanitizeUnqualifiedIdentifiers Sanitize updateColumns of
           Inl err \<Rightarrow> Inl (wrapf ''update_columns: '' err)
         | Inr sanitizedUpdateColumns \<Rightarrow>
         (if writeMode = ''upsert'' \<and> sanitizedUpdateColumns = [] then Inl (errors_New ''upsert requires at least one update column'')
          else case normalizeExtractSQL (ExtractSQL spec) of
           Inl err \<Rightarrow> Inl (wrapf ''extract_sql: '' err)
         | Inr extractSQL \<Rightarrow>
         (let statement = ''INSERT INTO '' @ Sanitize targetTable @ '' ('' @ Join targetColumns '', '' @ '')'' @ [CHR 0x0A] @ extractSQL
          in Inr (if writeMode = ''upsert''
                  then statement @ [CHR 0x0A] @ ''ON CONFLICT ('' @ Join conflictColumns '', '' @ '') DO UPDATE SET '' @
                    Join (map (\<lambda>column. column @ '' = EXCLUDED.'' @ column) sanitizedUpdateColumns) '', ''
                  else statement)))))))"

text \<open>
  The handler. \<open>fmt.Errorf\<close> with two \<open>%w\<close> wraps both errors. \<open>exec\<close> is the outcome of running
  the statement in the world the job meets; \<open>pool\<close> says whether a connection pool was given.
\<close>

definition bad_spec :: "go_error \<Rightarrow> go_error" where
  "bad_spec err = GoError (''etl: invalid pipeline spec: '' @ Error err @ '': '' @ Error ErrNoRetry) [err, ErrNoRetry]"

definition etl_Handler :: "(string \<Rightarrow> go_error + PipelineSpec) \<Rightarrow> (string list \<Rightarrow> string) \<Rightarrow> ('w \<Rightarrow> string \<Rightarrow> go_error option) \<Rightarrow>
    bool \<Rightarrow> 'w TaskHandler" where
  "etl_Handler json_Unmarshal Sanitize exec pool w timeout job =
     (case ParseSpec json_Unmarshal (task_Payload (job_Task job)) of
        Inl err \<Rightarrow> HandlerErr (bad_spec err)
      | Inr spec \<Rightarrow>
          (case BuildInsertSQL Sanitize spec of
             Inl err \<Rightarrow> HandlerErr (bad_spec err)
           | Inr statement \<Rightarrow>
               (if \<not> pool then HandlerErr (errors_New ''etl: postgres pool is required'')
                else case exec w statement of
                       Some err \<Rightarrow> HandlerErr (wrapf ''etl: execute pipeline: '' err)
                     | None \<Rightarrow> HandlerOk)))"

section \<open>The statement\<close>

lemma split_by_single: "split_by p s = [w] \<Longrightarrow> w = s"
proof (induction s arbitrary: w)
  case (Cons c s)
  then show ?case by (cases "split_by p s") (auto split: if_splits)
qed simp

lemma parseIdentifier_Inr:
  assumes "parseIdentifier val = Inr parts"
  shows "list_all validIdentifierPart parts" and "1 \<le> length parts \<and> length parts \<le> 3" and "length parts = 1 \<Longrightarrow> parts = [val]"
proof -
  have parts: "parts = Split val CHR ''.''" "length parts \<le> 3" "list_all validIdentifierPart parts"
    using assms by (auto simp: parseIdentifier_def Let_def split: if_splits)
  then show "list_all validIdentifierPart parts" "1 \<le> length parts \<and> length parts \<le> 3"
    by (simp_all add: Split_def Suc_le_eq)
  show "parts = [val]" if "length parts = 1"
  proof -
    from that obtain w where "parts = [w]" by (cases parts) auto
    then show ?thesis using parts(1) split_by_single unfolding Split_def by metis
  qed
qed

lemma sanitize_columns_Inr:
  "sanitize_columns Sanitize bad qualified cols = Inr out \<Longrightarrow> out = map (\<lambda>c. Sanitize [c]) cols \<and> list_all validIdentifierPart cols"
proof (induction cols arbitrary: out)
  case (Cons c cols)
  obtain i rest where i: "parseIdentifier c = Inr i" "length i = 1" "sanitize_columns Sanitize bad qualified cols = Inr rest"
    "out = Sanitize i # rest"
    using Cons.prems by (auto split: sum.splits if_splits)
  then show ?case using Cons.IH [OF i(3)] parseIdentifier_Inr [OF i(1)] by simp
qed simp

definition on_conflict :: "(string list \<Rightarrow> string) \<Rightarrow> string list \<Rightarrow> string list \<Rightarrow> string" where
  "on_conflict Sanitize conflict_cols update_cols = [CHR 0x0A] @ ''ON CONFLICT ('' @ Join (map (\<lambda>c. Sanitize [c]) conflict_cols) '', '' @
     '') DO UPDATE SET '' @ Join (map (\<lambda>c. Sanitize [c] @ '' = EXCLUDED.'' @ Sanitize [c]) update_cols) '', ''"

lemma BuildInsertSQL_Inr:
  assumes "BuildInsertSQL Sanitize spec = Inr statement"
  obtains table update_cols sql where "parseIdentifier (TargetTable spec) = Inr table" "list_all validIdentifierPart (TargetColumns spec)"
    "list_all validIdentifierPart (ConflictColumns spec)" "list_all validIdentifierPart update_cols"
    "normalizeExtractSQL (ExtractSQL spec) = Inr sql"
    "TrimSpace (ToLower (WriteMode spec)) = ''upsert'' \<longrightarrow> update_cols \<noteq> [] \<and> ConflictColumns spec \<noteq> []"
    "statement = ''INSERT INTO '' @ Sanitize table @ '' ('' @ Join (map (\<lambda>c. Sanitize [c]) (TargetColumns spec)) '', '' @ '')'' @ [CHR 0x0A] @ sql @
       (if TrimSpace (ToLower (WriteMode spec)) = ''upsert'' then on_conflict Sanitize (ConflictColumns spec) update_cols else [])"
proof -
  let ?w = "let w = TrimSpace (ToLower (WriteMode spec)) in if w = [] then ''append'' else w"
  let ?upd = "if ?w = ''upsert'' \<and> UpdateColumns spec = [] then nonConflictColumns (TargetColumns spec) (ConflictColumns spec) else UpdateColumns spec"
  note build = assms [unfolded BuildInsertSQL_def]
  obtain table where table: "parseIdentifier (TargetTable spec) = Inr table"
    using build by (cases "parseIdentifier (TargetTable spec)") (simp_all add: Let_def split: if_splits)
  note build = build [unfolded table sum.case]
  obtain cols where cols: "sanitize_columns Sanitize (\<lambda>column err. wrapf (''target_columns: '' @ quoted column @ '': '') err)
      (\<lambda>_. errors_New ''target column must be unqualified'') (TargetColumns spec) = Inr cols"
    using build by (auto simp: Let_def split: if_splits sum.splits)
  note build = build [unfolded cols sum.case]
  obtain ccols where ccols: "sanitizeUnqualifiedIdentifiers Sanitize (ConflictColumns spec) = Inr ccols"
    using build by (cases "sanitizeUnqualifiedIdentifiers Sanitize (ConflictColumns spec)") (simp_all add: Let_def split: if_splits)
  note build = build [unfolded ccols sum.case]
  obtain ucols where ucols: "sanitizeUnqualifiedIdentifiers Sanitize ?upd = Inr ucols"
    using build by (cases "sanitizeUnqualifiedIdentifiers Sanitize ?upd") (simp_all add: Let_def split: if_splits)
  obtain sql where sql: "normalizeExtractSQL (ExtractSQL spec) = Inr sql"
    using build ucols by (cases "normalizeExtractSQL (ExtractSQL spec)") (simp_all add: Let_def split: if_splits)
  note out = sanitize_columns_Inr [OF cols] sanitize_columns_Inr [OF ccols [unfolded sanitizeUnqualifiedIdentifiers_def]]
    sanitize_columns_Inr [OF ucols [unfolded sanitizeUnqualifiedIdentifiers_def]]
  have w: "?w = ''upsert'' \<longleftrightarrow> TrimSpace (ToLower (WriteMode spec)) = ''upsert''" by (simp add: Let_def)
  show thesis
  proof (rule that [of table ?upd sql])
    show "TrimSpace (ToLower (WriteMode spec)) = ''upsert'' \<longrightarrow> ?upd \<noteq> [] \<and> ConflictColumns spec \<noteq> []"
      using build ucols sql out w by (auto simp: Let_def split: if_splits)
  qed (use table out sql build ucols w in \<open>auto simp: Let_def on_conflict_def comp_def split: if_splits\<close>)
qed


definition quote_parts :: "string list \<Rightarrow> string" where
  "quote_parts parts = Join (map (\<lambda>p. [CHR 0x22] @ p @ [CHR 0x22]) parts) ''.''"

definition sample_spec :: PipelineSpec where
  "sample_spec = \<lparr>ExtractSQL = ''select a from t;'', TargetTable = ''s.u'', TargetColumns = [''a''], WriteMode = '''',
     ConflictColumns = [], UpdateColumns = []\<rparr>"


text \<open>A specification the handler rejects is dead-lettered by the runner, whatever the retry policy.\<close>

lemma etl_bad_spec_not_retried:
  assumes "ParseSpec json_Unmarshal (task_Payload (job_Task job)) = Inl e \<or>
    (\<exists>spec. ParseSpec json_Unmarshal (task_Payload (job_Task job)) = Inr spec \<and> BuildInsertSQL Sanitize spec = Inl e)"
  shows "etl_Handler json_Unmarshal Sanitize exec pool w timeout job = HandlerErr (bad_spec e) \<and>
    \<not> worker_shouldRetry cfg job (bad_spec e)"
proof -
  have "errors_Is (bad_spec e) ErrNoRetry" by (simp add: bad_spec_def)
  then show ?thesis using assms by (auto simp: etl_Handler_def worker_shouldRetry_def ShouldRetry_def)
qed

end
