(* ===== verification/Netip.thy ===== *)
theory Netip
  imports Conduit_Prelude "HOL-Library.Word"
begin

text \<open>
  The part of Go's \<open>net/netip\<close> that the webhook task uses: addresses of either family and the
  predicates on them, as in Go 1.23, where every predicate except \<open>IsUnspecified\<close> first turns an
  IPv6 address that carries an IPv4 address (\<open>::ffff:a.b.c.d\<close>) into that IPv4 address. The
  lemmas give each predicate as a range of the numeric value of the address.
\<close>

unbundle bit_operations_syntax

section \<open>Addresses\<close>

datatype Addr = V4 "32 word" | V6 "128 word" string

definition v4_byte :: "32 word \<Rightarrow> nat \<Rightarrow> 8 word" where
  "v4_byte a i = ucast (drop_bit (24 - 8 * i) a)"

definition v6_byte :: "128 word \<Rightarrow> nat \<Rightarrow> 8 word" where
  "v6_byte a i = ucast (drop_bit (120 - 8 * i) a)"

definition v6u16 :: "128 word \<Rightarrow> nat \<Rightarrow> 16 word" where
  "v6u16 a i = ucast (drop_bit (112 - 16 * i) a)"

fun Unmap :: "Addr \<Rightarrow> Addr" where
  "Unmap (V4 a) = V4 a"
| "Unmap (V6 a zone) = (if drop_bit 32 a = 0xFFFF then V4 (ucast a) else V6 a zone)"

definition IsLoopback :: "Addr \<Rightarrow> bool" where
  "IsLoopback ip \<longleftrightarrow> (case Unmap ip of V4 a \<Rightarrow> v4_byte a 0 = 127 | V6 a _ \<Rightarrow> a = 1)"

definition IsPrivate :: "Addr \<Rightarrow> bool" where
  "IsPrivate ip \<longleftrightarrow> (case Unmap ip of
       V4 a \<Rightarrow> v4_byte a 0 = 10 \<or> (v4_byte a 0 = 172 \<and> v4_byte a 1 AND 0xF0 = 16) \<or> (v4_byte a 0 = 192 \<and> v4_byte a 1 = 168)
     | V6 a _ \<Rightarrow> v6_byte a 0 AND 0xFE = 0xFC)"

definition IsLinkLocalUnicast :: "Addr \<Rightarrow> bool" where
  "IsLinkLocalUnicast ip \<longleftrightarrow> (case Unmap ip of
       V4 a \<Rightarrow> v4_byte a 0 = 169 \<and> v4_byte a 1 = 254
     | V6 a _ \<Rightarrow> v6u16 a 0 AND 0xFFC0 = 0xFE80)"

definition IsLinkLocalMulticast :: "Addr \<Rightarrow> bool" where
  "IsLinkLocalMulticast ip \<longleftrightarrow> (case Unmap ip of
       V4 a \<Rightarrow> v4_byte a 0 = 224 \<and> v4_byte a 1 = 0 \<and> v4_byte a 2 = 0
     | V6 a _ \<Rightarrow> v6u16 a 0 AND 0xFF0F = 0xFF02)"

definition IsMulticast :: "Addr \<Rightarrow> bool" where
  "IsMulticast ip \<longleftrightarrow> (case Unmap ip of V4 a \<Rightarrow> v4_byte a 0 AND 0xF0 = 0xE0 | V6 a _ \<Rightarrow> v6_byte a 0 = 0xFF)"

definition IsUnspecified :: "Addr \<Rightarrow> bool" where
  "IsUnspecified ip \<longleftrightarrow> ip = V4 0 \<or> ip = V6 0 []"

section \<open>Predicates as ranges\<close>

lemma unat_drop: "unat (drop_bit n a) = unat a div 2 ^ n"
proof -
  have "take_bit LENGTH('a) (unat a) = unat a" for a :: "'a :: len word"
    by (simp add: take_bit_eq_mod)
  then show ?thesis by (simp add: unsigned_drop_bit_eq flip: drop_bit_eq_div)
qed

lemma unat_v4_byte: "unat (v4_byte a i) = unat a div 2 ^ (24 - 8 * i) mod 256"
  unfolding v4_byte_def by (simp add: unsigned_ucast_eq take_bit_eq_mod unat_drop)

lemma unat_v6_byte: "unat (v6_byte a i) = unat a div 2 ^ (120 - 8 * i) mod 256"
  unfolding v6_byte_def by (simp add: unsigned_ucast_eq take_bit_eq_mod unat_drop)

lemma unat_v6u16: "unat (v6u16 a i) = unat a div 2 ^ (112 - 16 * i) mod 65536"
  unfolding v6u16_def by (simp add: unsigned_ucast_eq take_bit_eq_mod unat_drop)

lemma and_field: "(n :: nat) AND push_bit k (mask m) = push_bit k (take_bit m (drop_bit k n))"
  by (rule bit_eqI) (auto simp: bit_simps)

lemma and_field_eq: "(n :: nat) AND push_bit k (mask m) = push_bit k v \<longleftrightarrow> n div 2 ^ k mod 2 ^ m = v"
  unfolding and_field by (simp add: push_bit_eq_mult take_bit_eq_mod drop_bit_eq_div)

lemma word_and_eq: "(b :: 'a :: len word) AND c = v \<longleftrightarrow> unat b AND unat c = unat v"
  by (simp add: word_unat_eq_iff unsigned_and_eq)

lemma byte_and_F0: "(b :: 8 word) AND 0xF0 = v \<longleftrightarrow> unat b div 16 mod 16 * 16 = unat v"
proof -
  have "unat b AND push_bit 4 (mask 4) = unat b div 16 mod 16 * 16"
    unfolding and_field by (simp add: push_bit_eq_mult take_bit_eq_mod drop_bit_eq_div)
  then show ?thesis unfolding word_and_eq by (simp add: mask_numeral)
qed

lemma byte_and_FE: "(b :: 8 word) AND 0xFE = v \<longleftrightarrow> unat b div 2 mod 128 * 2 = unat v"
proof -
  have "unat b AND push_bit 1 (mask 7) = unat b div 2 mod 128 * 2"
    unfolding and_field by (simp add: push_bit_eq_mult take_bit_eq_mod drop_bit_eq_div)
  then show ?thesis unfolding word_and_eq by (simp add: mask_numeral)
qed

lemma u16_and_FFC0: "(b :: 16 word) AND 0xFFC0 = v \<longleftrightarrow> unat b div 64 mod 1024 * 64 = unat v"
proof -
  have "unat b AND push_bit 6 (mask 10) = unat b div 64 mod 1024 * 64"
    unfolding and_field by (simp add: push_bit_eq_mult take_bit_eq_mod drop_bit_eq_div)
  then show ?thesis unfolding word_and_eq by (simp add: mask_numeral)
qed

lemma div_eq_range: "0 < d \<Longrightarrow> n div d = q \<longleftrightarrow> q * d \<le> n \<and> n < (q + 1) * d" for n d q :: nat
  by (metis Suc_eq_plus1 div_less_iff_less_mult less_Suc_eq_le less_eq_div_iff_mult_less_eq nle_le order.strict_iff_order not_le)

text \<open>
  The reference: an IPv4 address by its number, and the ranges of addresses that no webhook may
  reach. An IPv6 address is judged by the IPv4 address it carries, if it carries one.
\<close>

definition dotted :: "nat \<Rightarrow> nat \<Rightarrow> nat \<Rightarrow> nat \<Rightarrow> nat" where
  "dotted a b c d = a * 2 ^ 24 + b * 2 ^ 16 + c * 2 ^ 8 + d"

definition internal_v4 :: "nat \<Rightarrow> bool" where
  "internal_v4 n \<longleftrightarrow>
     dotted 127 0 0 0 \<le> n \<and> n < dotted 128 0 0 0 \<or> dotted 10 0 0 0 \<le> n \<and> n < dotted 11 0 0 0 \<or>
     dotted 172 16 0 0 \<le> n \<and> n < dotted 172 32 0 0 \<or> dotted 192 168 0 0 \<le> n \<and> n < dotted 192 169 0 0 \<or>
     dotted 169 254 0 0 \<le> n \<and> n < dotted 169 255 0 0 \<or> dotted 224 0 0 0 \<le> n \<and> n < dotted 240 0 0 0"

definition internal_v6 :: "nat \<Rightarrow> bool" where
  "internal_v6 n \<longleftrightarrow> n = 1 \<or> 0xFC * 2 ^ 120 \<le> n \<and> n < 0xFE * 2 ^ 120 \<or>
     0xFE80 * 2 ^ 112 \<le> n \<and> n < 0xFEC0 * 2 ^ 112 \<or> 0xFF * 2 ^ 120 \<le> n"

fun internal_range :: "Addr \<Rightarrow> bool" where
  "internal_range (V4 a) \<longleftrightarrow> internal_v4 (unat a)"
| "internal_range (V6 a zone) \<longleftrightarrow>
     (if unat a div 2 ^ 32 = 0xFFFF then internal_v4 (unat a mod 2 ^ 32) else internal_v6 (unat a))"

lemma byte_0: "n < 2 ^ 32 \<Longrightarrow> n div 2 ^ 24 mod 256 = n div 2 ^ 24" for n :: nat
  by (rule mod_less) (rule less_mult_imp_div_less, simp)

lemma div_mod_split: "c < d \<Longrightarrow> m div d = b \<and> m mod d = c \<longleftrightarrow> m = b * d + c" for m b c d :: nat
  by auto

lemma two_bytes:
  fixes n b c :: nat
  assumes "n < 2 ^ 32" and "c < 256"
  shows "n div 2 ^ 24 mod 256 = b \<and> n div 2 ^ 16 mod 256 = c \<longleftrightarrow> n div 2 ^ 16 = b * 256 + c"
proof -
  have "n div 2 ^ 24 = n div 2 ^ 16 div 256"
    by (simp add: div_mult2_eq [symmetric])
  then show ?thesis using byte_0 [OF assms(1)] div_mod_split [OF assms(2)] by simp
qed

lemma private_172:
  fixes n :: nat
  assumes "n < 2 ^ 32"
  shows "n div 2 ^ 24 mod 256 = 172 \<and> n div 2 ^ 16 mod 256 div 16 mod 16 * 16 = 16 \<longleftrightarrow> n div 2 ^ 20 = 172 * 16 + 1"
proof -
  have "n div 2 ^ 24 = n div 2 ^ 20 div 16" and sixteen: "n div 2 ^ 16 div 16 = n div 2 ^ 20"
    by (simp_all add: div_mult2_eq [symmetric])
  then have first: "n div 2 ^ 24 mod 256 = n div 2 ^ 20 div 16"
    using byte_0 [OF assms] by simp
  have second: "n div 2 ^ 16 mod 256 div 16 mod 16 = n div 2 ^ 20 mod 16"
    using sixteen mod_mult2_eq [of "n div 2 ^ 16" 16 16] by simp
  have "m mod 16 * 16 = 16 \<longleftrightarrow> m mod 16 = 1" for m :: nat by simp
  then show ?thesis unfolding first second using div_mod_split [of 1 16 "n div 2 ^ 20" 172] by simp
qed

lemma multicast_v4:
  fixes n :: nat
  assumes "n < 2 ^ 32"
  shows "n div 2 ^ 24 mod 256 div 16 mod 16 * 16 = 0xE0 \<longleftrightarrow> n div 2 ^ 28 = 14"
proof -
  have "n div 2 ^ 24 mod 256 div 16 = n div 2 ^ 28"
    using byte_0 [OF assms] by (simp add: div_mult2_eq [symmetric])
  moreover have "n div 2 ^ 28 mod 16 = n div 2 ^ 28"
    using assms by (intro mod_less less_mult_imp_div_less) simp
  moreover have "k * 16 = 0xE0 \<longleftrightarrow> k = 14" for k :: nat by arith
  ultimately show ?thesis by (simp only:)
qed

lemma unat_v4_less: "unat (a :: 32 word) < 2 ^ 32"
  using unsigned_less [of a] by simp

lemma v4_nonpublic:
  "IsLoopback (V4 a) \<or> IsPrivate (V4 a) \<or> IsLinkLocalUnicast (V4 a) \<or> IsLinkLocalMulticast (V4 a) \<or> IsMulticast (V4 a)
     \<longleftrightarrow> internal_v4 (unat a)"
proof -
  let ?n = "unat a"
  note less = unat_v4_less [of a]
  have loop: "IsLoopback (V4 a) \<longleftrightarrow> ?n div 2 ^ 24 = 127"
    using byte_0 [OF less] by (simp add: IsLoopback_def word_unat_eq_iff unat_v4_byte)
  have priv: "IsPrivate (V4 a) \<longleftrightarrow> ?n div 2 ^ 24 = 10 \<or> ?n div 2 ^ 20 = 172 * 16 + 1 \<or> ?n div 2 ^ 16 = 192 * 256 + 168"
    using byte_0 [OF less] private_172 [OF less] two_bytes [OF less, of 168 192]
    by (simp add: IsPrivate_def byte_and_F0) (simp add: word_unat_eq_iff unat_v4_byte)
  have link: "IsLinkLocalUnicast (V4 a) \<longleftrightarrow> ?n div 2 ^ 16 = 169 * 256 + 254"
    using two_bytes [OF less, of 254 169] by (simp add: IsLinkLocalUnicast_def word_unat_eq_iff unat_v4_byte)
  have "IsMulticast (V4 a) \<longleftrightarrow> ?n div 2 ^ 28 = 14"
    using multicast_v4 [OF less] by (simp add: IsMulticast_def byte_and_F0) (simp add: unat_v4_byte)
  moreover have "IsLinkLocalMulticast (V4 a) \<Longrightarrow> IsMulticast (V4 a)"
    by (simp add: IsLinkLocalMulticast_def IsMulticast_def)
  ultimately have multi: "IsLinkLocalMulticast (V4 a) \<or> IsMulticast (V4 a) \<longleftrightarrow> ?n div 2 ^ 28 = 14" by blast
  show ?thesis unfolding loop priv link multi internal_v4_def dotted_def
    by (simp add: div_eq_range)
qed

lemma high_field:
  fixes k d m v :: nat
  assumes "k < d * m" and "0 < d"
  shows "k div d mod m * d = v * d \<longleftrightarrow> k div d = v"
proof -
  have "k div d < m" using assms by (intro less_mult_imp_div_less) (simp add: mult.commute)
  then show ?thesis using assms(2) by simp
qed

lemma u16_and_FF0F: "(b :: 16 word) AND 0xFF0F = 0xFF02 \<Longrightarrow> unat b div 256 = 0xFF"
proof -
  assume "b AND 0xFF0F = 0xFF02"
  then have "unat b AND 0xFF0F = 0xFF02" unfolding word_and_eq by simp
  then have "(unat b AND 0xFF0F) AND 0xFF00 = 0xFF02 AND 0xFF00" by (simp only:)
  then have "unat b AND push_bit 8 (mask 8) = push_bit 8 0xFF"
    by (simp add: and.assoc mask_numeral)
  then have "unat b div 256 mod 256 = 0xFF" unfolding and_field_eq by simp
  moreover have "unat b div 256 < 256"
    using unsigned_less [of b] by (intro less_mult_imp_div_less) simp
  ultimately show ?thesis by simp
qed

lemma v6_nonpublic:
  assumes "drop_bit 32 a \<noteq> 0xFFFF"
  shows "IsLoopback (V6 a z) \<or> IsPrivate (V6 a z) \<or> IsLinkLocalUnicast (V6 a z) \<or> IsLinkLocalMulticast (V6 a z) \<or> IsMulticast (V6 a z)
     \<longleftrightarrow> internal_v6 (unat a)"
proof -
  let ?n = "unat a"
  have less: "?n < 2 ^ 128" using unsigned_less [of a] by simp
  have bytes: "?n div 2 ^ 120 < 256" "?n div 2 ^ 112 < 65536"
    using less by (intro less_mult_imp_div_less; simp)+
  have fields: "?n div 2 ^ 120 div 2 = ?n div 2 ^ 121" "?n div 2 ^ 112 div 64 = ?n div 2 ^ 118" "?n div 2 ^ 112 div 256 = ?n div 2 ^ 120"
    by (simp_all add: div_mult2_eq [symmetric])
  have loop: "IsLoopback (V6 a z) \<longleftrightarrow> ?n = 1"
    using assms by (simp add: IsLoopback_def word_unat_eq_iff)
  have priv: "IsPrivate (V6 a z) \<longleftrightarrow> ?n div 2 ^ 121 = 0x7E"
    using assms high_field [of "?n div 2 ^ 120" 2 128 "0x7E"] bytes(1) fields(1)
    by (simp add: IsPrivate_def byte_and_FE) (simp add: unat_v6_byte)
  have link: "IsLinkLocalUnicast (V6 a z) \<longleftrightarrow> ?n div 2 ^ 118 = 0x3FA"
    using assms high_field [of "?n div 2 ^ 112" 64 1024 "0x3FA"] bytes(2) fields(2)
    by (simp add: IsLinkLocalUnicast_def u16_and_FFC0) (simp add: unat_v6u16)
  have "IsMulticast (V6 a z) \<longleftrightarrow> ?n div 2 ^ 120 = 0xFF"
    using assms bytes(1) by (simp add: IsMulticast_def word_unat_eq_iff unat_v6_byte)
  moreover have "?n div 2 ^ 120 = 0xFF" if "IsLinkLocalMulticast (V6 a z)"
    using that assms u16_and_FF0F [of "v6u16 a 0"] bytes(2) fields(3) by (simp add: IsLinkLocalMulticast_def unat_v6u16)
  ultimately have multi: "IsLinkLocalMulticast (V6 a z) \<or> IsMulticast (V6 a z) \<longleftrightarrow> ?n div 2 ^ 120 = 0xFF" by blast
  also have "\<dots> \<longleftrightarrow> 0xFF * 2 ^ 120 \<le> ?n" using less unfolding div_eq_range [of "2 ^ 120", OF zero_less_power, OF zero_less_numeral] by auto
  finally have multi': "IsLinkLocalMulticast (V6 a z) \<or> IsMulticast (V6 a z) \<longleftrightarrow> 0xFF * 2 ^ 120 \<le> ?n" .
  show ?thesis unfolding loop priv link multi' internal_v6_def
      div_eq_range [of "2 ^ 121", OF zero_less_power, OF zero_less_numeral] div_eq_range [of "2 ^ 118", OF zero_less_power, OF zero_less_numeral]
    by simp
qed

lemma mapped_iff: "drop_bit 32 (a :: 128 word) = 0xFFFF \<longleftrightarrow> unat a div 2 ^ 32 = 0xFFFF"
  unfolding word_unat_eq_iff unat_drop by simp

theorem nonpublic_iff:
  "IsLoopback ip \<or> IsPrivate ip \<or> IsLinkLocalUnicast ip \<or> IsLinkLocalMulticast ip \<or> IsMulticast ip \<longleftrightarrow> internal_range ip"
proof (cases ip)
  case (V4 a)
  then show ?thesis using v4_nonpublic by simp
next
  case (V6 a z)
  show ?thesis
  proof (cases "drop_bit 32 a = 0xFFFF")
    case True
    have "unat (ucast a :: 32 word) = unat a mod 2 ^ 32" by (simp add: unsigned_ucast_eq take_bit_eq_mod)
    moreover have "Unmap ip = Unmap (V4 (ucast a))" using True V6 by simp
    ultimately show ?thesis using v4_nonpublic [of "ucast a"] True V6
      unfolding IsLoopback_def IsPrivate_def IsLinkLocalUnicast_def IsLinkLocalMulticast_def IsMulticast_def mapped_iff by simp
  next
    case False
    then show ?thesis using v6_nonpublic V6 by (simp add: mapped_iff)
  qed
qed

end
