(* ===== verification/Webhook.thy ===== *)
theory Webhook
  imports Runner Go_Strings Netip
begin

text \<open>
  The webhook task of \<open>internal/webhook/executor.go\<close>: the check of the target, the redirect policy
  of its HTTP client, the request, and the way a response decides between success, retry and dead
  letter. Texts are ASCII. Arguments of the definitions are what lies outside: the URL and address
  parsers, the printed form of an address and the JSON encoder (\<open>go_net\<close>), the name resolver, and
  the transport, which answers the \<open>n\<close>th request of a run. The redirect loop of \<open>http.Client.Do\<close> is
  modelled with the \<open>CheckRedirect\<close> of the executor, as the sequence of targets it contacts; how
  method, headers and body of a redirected request derive from the first is left to the transport,
  and the \<open>url.Error\<close> that \<open>Do\<close> puts around an error, which unwraps to it, is left out. The lemmas: which addresses pass, every request that leaves the
  process goes to a target that has passed, there are at most \<open>MaxRedirects\<close> of them, and which
  outcomes are retried.
\<close>

section \<open>Model\<close>

record URL =
  url_Scheme :: string
  url_User :: "string option"
  url_Hostname :: string

record requestBody =
  rb_JobID :: string
  rb_TaskID :: string
  rb_TaskName :: string
  rb_Attempt :: int
  rb_Payload :: string
  rb_Metadata :: metadata

record http_request =
  rq_Method :: string
  rq_URL :: URL
  rq_Header :: "(string \<times> string) list"
  rq_Body :: string

record http_response =
  rsp_StatusCode :: int
  rsp_Location :: "(go_error + URL) option"
  rsp_Body :: string

record go_net =
  url_Parse :: "string \<Rightarrow> go_error + URL"
  ParseAddr :: "string \<Rightarrow> Addr option"
  Addr_String :: "Addr \<Rightarrow> string"
  json_Marshal :: "requestBody \<Rightarrow> go_error + string"

type_synonym 'w Resolver = "'w \<Rightarrow> nat \<Rightarrow> string \<Rightarrow> go_error + Addr list"

type_synonym 'w transport = "'w \<Rightarrow> http_request \<Rightarrow> nat \<Rightarrow> URL \<Rightarrow> go_error + http_response"

datatype 'w http_client = OwnClient duration | GivenClient "'w \<Rightarrow> http_request \<Rightarrow> go_error + http_response"

record 'w webhook_config =
  wc_Client :: "'w http_client option"
  wc_Resolver :: "'w Resolver option"
  wc_Timeout :: duration
  wc_MaxRedirects :: int
  wc_AllowPrivateNetworks :: bool

record 'w webhook_executor =
  ex_client :: "'w http_client"
  ex_resolver :: "'w Resolver"
  ex_allowPrivateNetworks :: bool
  ex_maxRedirects :: int

definition NewExecutorWithConfig :: "'w Resolver \<Rightarrow> 'w webhook_config \<Rightarrow> 'w webhook_executor" where
  "NewExecutorWithConfig defaultResolver cfg =
     \<lparr>ex_client = (case wc_Client cfg of Some client \<Rightarrow> client
        | None \<Rightarrow> OwnClient (if wc_Timeout cfg \<le> 0 then 10 * Second else wc_Timeout cfg)),
      ex_resolver = (case wc_Resolver cfg of Some r \<Rightarrow> r | None \<Rightarrow> defaultResolver),
      ex_allowPrivateNetworks = wc_AllowPrivateNetworks cfg,
      ex_maxRedirects = wc_MaxRedirects cfg\<rparr>"

definition NewExecutor :: "'w Resolver \<Rightarrow> 'w http_client option \<Rightarrow> 'w webhook_executor" where
  "NewExecutor defaultResolver client = NewExecutorWithConfig defaultResolver
     \<lparr>wc_Client = client, wc_Resolver = None, wc_Timeout = 0, wc_MaxRedirects = 0, wc_AllowPrivateNetworks = False\<rparr>"

subsection \<open>Targets\<close>

definition validateAddr :: "go_net \<Rightarrow> 'w webhook_executor \<Rightarrow> Addr \<Rightarrow> go_error option" where
  "validateAddr net e addr =
     (if ex_allowPrivateNetworks e then None
      else if IsLoopback addr \<or> IsPrivate addr \<or> IsLinkLocalUnicast addr \<or> IsLinkLocalMulticast addr \<or>
              IsMulticast addr \<or> IsUnspecified addr
      then Some (errors_New (''address '' @ Addr_String net addr @ '' is not public''))
      else None)"

fun validate_addrs :: "go_net \<Rightarrow> 'w webhook_executor \<Rightarrow> Addr list \<Rightarrow> go_error option" where
  "validate_addrs net e [] = None"
| "validate_addrs net e (addr # addrs) =
     (case validateAddr net e addr of Some err \<Rightarrow> Some err | None \<Rightarrow> validate_addrs net e addrs)"

text \<open>The number counts the validations of one run, since a resolver may change its answers.\<close>

definition validateURL :: "go_net \<Rightarrow> 'w webhook_executor \<Rightarrow> 'w \<Rightarrow> nat \<Rightarrow> URL \<Rightarrow> go_error option" where
  "validateURL net e w n u =
     (if url_Scheme u \<noteq> ''http'' \<and> url_Scheme u \<noteq> ''https'' then Some (errors_New ''url scheme must be http or https'')
      else if url_User u \<noteq> None then Some (errors_New ''url userinfo is not allowed'')
      else let hostname = url_Hostname u
           in if hostname = '''' then Some (errors_New ''url host is required'')
              else if EqualFold hostname ''localhost'' then Some (errors_New ''localhost is not allowed'')
              else case ParseAddr net hostname of
                     Some addr \<Rightarrow> validateAddr net e addr
                   | None \<Rightarrow>
                       (case ex_resolver e w n hostname of
                          Inl err \<Rightarrow> Some (wrapf (''resolve host '' @ quoted hostname @ '': '') err)
                        | Inr addrs \<Rightarrow>
                            (if addrs = [] then Some (errors_New (''host '' @ quoted hostname @ '' resolved to no addresses''))
                             else validate_addrs net e addrs)))"

subsection \<open>The client\<close>

datatype redirect_decision = Follow | UseLastResponse | RedirectErr go_error

text \<open>\<open>n\<close> is the number of requests already made, \<open>len(via)\<close>.\<close>

definition CheckRedirect :: "go_net \<Rightarrow> 'w webhook_executor \<Rightarrow> 'w \<Rightarrow> nat \<Rightarrow> URL \<Rightarrow> redirect_decision" where
  "CheckRedirect net e w n u =
     (if int n \<ge> ex_maxRedirects e then UseLastResponse
      else case validateURL net e w n u of Some err \<Rightarrow> RedirectErr err | None \<Rightarrow> Follow)"

lemma CheckRedirect_Follow: "CheckRedirect net e w n u = Follow \<longleftrightarrow> int n < ex_maxRedirects e \<and> validateURL net e w n u = None"
  by (auto simp: CheckRedirect_def split: option.split)

definition redirect_status :: "int \<Rightarrow> bool" where
  "redirect_status status \<longleftrightarrow> status \<in> {301, 302, 303, 307, 308}"

text \<open>\<open>http.Client.Do\<close>: the targets that were contacted, and the outcome of the last exchange.\<close>

function client_Do :: "go_net \<Rightarrow> 'w transport \<Rightarrow> 'w webhook_executor \<Rightarrow> 'w \<Rightarrow> http_request \<Rightarrow> URL list \<Rightarrow> URL \<Rightarrow>
    URL list \<times> (go_error + http_response)" where
  "client_Do net send e w request via u =
     (let via' = via @ [u]
      in case send w request (length via) u of
           Inl err \<Rightarrow> (via', Inl err)
         | Inr response \<Rightarrow>
             (if \<not> redirect_status (rsp_StatusCode response) then (via', Inr response)
              else case rsp_Location response of
                     None \<Rightarrow> (via', Inr response)
                   | Some (Inl err) \<Rightarrow> (via', Inl err)
                   | Some (Inr next) \<Rightarrow>
                       (case CheckRedirect net e w (length via') next of
                          UseLastResponse \<Rightarrow> (via', Inr response)
                        | RedirectErr err \<Rightarrow> (via', Inl err)
                        | Follow \<Rightarrow> client_Do net send e w request via' next)))"
  by pat_completeness auto
termination
  by (relation "measure (\<lambda>(net, send, e, w, request, via, u). nat (ex_maxRedirects e - int (length via)))")
    (auto simp: CheckRedirect_Follow)

declare client_Do.simps [simp del]

definition Do_client :: "go_net \<Rightarrow> 'w transport \<Rightarrow> 'w webhook_executor \<Rightarrow> 'w \<Rightarrow> http_request \<Rightarrow>
    URL list \<times> (go_error + http_response)" where
  "Do_client net send e w request =
     (case ex_client e of OwnClient timeout \<Rightarrow> client_Do net send e w request [] (rq_URL request)
      | GivenClient given \<Rightarrow> ([rq_URL request], given w request))"

subsection \<open>The handler\<close>

definition maxErrorBodyBytes :: nat where
  "maxErrorBodyBytes = 4096"

definition metadata_get :: "metadata \<Rightarrow> string \<Rightarrow> string" where
  "metadata_get md k = (case md k of Some v \<Rightarrow> v | None \<Rightarrow> '''')"

definition permanent :: "string \<Rightarrow> go_error" where
  "permanent msg = GoError (msg @ '': '' @ Error ErrNoRetry) [ErrNoRetry]"

definition permanent_cause :: "string \<Rightarrow> go_error \<Rightarrow> go_error" where
  "permanent_cause msg err = GoError (msg @ '': '' @ Error err @ '': '' @ Error ErrNoRetry) [err, ErrNoRetry]"

definition request_body :: "Job \<Rightarrow> requestBody" where
  "request_body job = \<lparr>rb_JobID = job_ID job, rb_TaskID = task_ID (job_Task job), rb_TaskName = task_Name (job_Task job),
     rb_Attempt = job_Attempt job, rb_Payload = task_Payload (job_Task job), rb_Metadata = job_Metadata job\<rparr>"

text \<open>The handler's reading of the response, lines after \<open>client.Do\<close>.\<close>

definition response_error :: "http_response \<Rightarrow> go_error option" where
  "response_error response =
     (let status = rsp_StatusCode response;
          message = ''webhook: status '' @ Itoa status @ '': '' @ TrimSpace (take maxErrorBodyBytes (rsp_Body response))
      in if 200 \<le> status \<and> status < 300 then None
         else if status = 408 \<or> status = 429 \<or> status \<ge> 500 then Some (errors_New message)
         else Some (permanent message))"

definition target_of :: "go_net \<Rightarrow> Job \<Rightarrow> go_error + URL" where
  "target_of net job =
     (let targetURL = TrimSpace (metadata_get (task_Metadata (job_Task job)) ''url'')
      in if targetURL = '''' then Inl (permanent ''webhook: task.metadata.url is required'')
         else case url_Parse net targetURL of
                Inl err \<Rightarrow> Inl (permanent_cause ''webhook: invalid url'' err)
              | Inr parsedURL \<Rightarrow> Inr parsedURL)"

definition method_of :: "Job \<Rightarrow> string" where
  "method_of job = (let method = ToUpper (TrimSpace (metadata_get (task_Metadata (job_Task job)) ''method''))
     in if method = '''' then ''POST'' else method)"

definition webhook_request :: "Job \<Rightarrow> string \<Rightarrow> URL \<Rightarrow> string \<Rightarrow> http_request" where
  "webhook_request job method u body = \<lparr>rq_Method = method, rq_URL = u,
     rq_Header = [(''Content-Type'', ''application/json''), (''User-Agent'', ''Conduit webhook executor''),
       (''X-Conduit-Job-ID'', job_ID job), (''X-Conduit-Attempt'', Itoa (job_Attempt job))],
     rq_Body = body\<rparr>"

text \<open>
  One run of the handler: the targets it contacted and its error. \<open>http.NewRequest\<close> parses the same text
  again, with the same result, so its error branch cannot be taken.
\<close>

definition webhook_run :: "go_net \<Rightarrow> 'w transport \<Rightarrow> 'w webhook_executor \<Rightarrow> 'w \<Rightarrow> Job \<Rightarrow> URL list \<times> go_error option" where
  "webhook_run net send e w job =
     (case target_of net job of
        Inl err \<Rightarrow> ([], Some err)
      | Inr parsedURL \<Rightarrow>
          (case validateURL net e w 0 parsedURL of
             Some err \<Rightarrow> ([], Some (permanent_cause ''webhook: unsafe url'' err))
           | None \<Rightarrow>
               (let method = method_of job
                in if method \<noteq> ''POST'' \<and> method \<noteq> ''PUT'' \<and> method \<noteq> ''PATCH''
                   then ([], Some (permanent (''webhook: unsupported method '' @ quoted method)))
                   else case json_Marshal net (request_body job) of
                          Inl err \<Rightarrow> ([], Some (wrapf ''webhook: marshal request body: '' err))
                        | Inr body \<Rightarrow>
                            (let (contacted, outcome) = Do_client net send e w (webhook_request job method parsedURL body)
                             in (contacted, case outcome of
                                   Inl err \<Rightarrow> Some (wrapf ''webhook: request failed: '' err)
                                 | Inr response \<Rightarrow> response_error response)))))"

definition webhook_Handler :: "go_net \<Rightarrow> 'w transport \<Rightarrow> 'w webhook_executor \<Rightarrow> 'w TaskHandler" where
  "webhook_Handler net send e w timeout job =
     (case snd (webhook_run net send e w job) of None \<Rightarrow> HandlerOk | Some err \<Rightarrow> HandlerErr err)"

section \<open>Targets that pass\<close>

text \<open>What a target must satisfy when private networks are not allowed.\<close>

definition safe_target :: "go_net \<Rightarrow> 'w webhook_executor \<Rightarrow> 'w \<Rightarrow> nat \<Rightarrow> URL \<Rightarrow> bool" where
  "safe_target net e w n u \<longleftrightarrow>
     url_Scheme u \<in> {''http'', ''https''} \<and> url_User u = None \<and> url_Hostname u \<noteq> '''' \<and>
     \<not> EqualFold (url_Hostname u) ''localhost'' \<and>
     (case ParseAddr net (url_Hostname u) of
        Some a \<Rightarrow> \<not> internal_range a \<and> \<not> IsUnspecified a
      | None \<Rightarrow> \<exists>addrs. ex_resolver e w n (url_Hostname u) = Inr addrs \<and> addrs \<noteq> [] \<and>
          (\<forall>a \<in> set addrs. \<not> internal_range a \<and> \<not> IsUnspecified a))"

lemma validateAddr_None:
  "validateAddr net e a = None \<longleftrightarrow> ex_allowPrivateNetworks e \<or> \<not> internal_range a \<and> \<not> IsUnspecified a"
  using nonpublic_iff [of a] by (auto simp: validateAddr_def)

lemma validate_addrs_None:
  "validate_addrs net e addrs = None \<longleftrightarrow> (\<forall>a \<in> set addrs. validateAddr net e a = None)"
  by (induction addrs) (auto split: option.split)

lemma validateURL_safe:
  assumes "\<not> ex_allowPrivateNetworks e"
  shows "validateURL net e w n u = None \<longleftrightarrow> safe_target net e w n u"
  using assms by (auto simp: validateURL_def safe_target_def Let_def validate_addrs_None validateAddr_None
      split: option.splits sum.splits if_splits)

text \<open>The contacted targets: the first is given, each later one has passed \<open>CheckRedirect\<close>.\<close>

definition passed_from :: "go_net \<Rightarrow> 'w webhook_executor \<Rightarrow> 'w \<Rightarrow> nat \<Rightarrow> URL list \<Rightarrow> bool" where
  "passed_from net e w k contacted \<longleftrightarrow> (\<forall>n < length contacted. k < n \<longrightarrow> validateURL net e w n (contacted ! n) = None)"

lemma client_Do_step:
  "fst (client_Do net send e w request via u) = via @ [u] \<or>
   (\<exists>response v. send w request (length via) u = Inr response \<and> \<not> \<not> redirect_status (rsp_StatusCode response) \<and>
      rsp_Location response = Some (Inr v) \<and> CheckRedirect net e w (length (via @ [u])) v = Follow \<and>
      client_Do net send e w request via u = client_Do net send e w request (via @ [u]) v)"
proof (cases "send w request (length via) u")
  case (Inl err)
  then show ?thesis by (simp add: client_Do.simps [of net send e w request via u])
next
  case (Inr response)
  note unfold = client_Do.simps [of net send e w request via u] Inr
  show ?thesis
  proof (cases "redirect_status (rsp_StatusCode response)")
    case False
    then show ?thesis by (simp add: unfold)
  next
    case redirect: True
    show ?thesis
    proof (cases "rsp_Location response")
      case None
      with redirect show ?thesis by (simp add: unfold)
    next
      case (Some location)
      with redirect Inr show ?thesis
      proof (cases location)
        case (Inr v)
        with redirect Some show ?thesis
          by (cases "CheckRedirect net e w (length (via @ [u])) v") (simp_all add: unfold)
      qed (simp add: unfold)
    qed
  qed
qed

lemma client_Do_contacted:
  "client_Do net send e w request via u = (contacted, outcome) \<Longrightarrow>
    (\<exists>more. contacted = via @ [u] @ more) \<and> int (length contacted) \<le> max (int (Suc (length via))) (ex_maxRedirects e) \<and>
    passed_from net e w (length via) contacted"
proof (induction "nat (ex_maxRedirects e - int (length via))" arbitrary: via u rule: less_induct)
  case less
  show ?case
  proof (cases "contacted = via @ [u]")
    case True
    then show ?thesis by (simp add: passed_from_def)
  next
    case False
    then obtain v where follow: "CheckRedirect net e w (length (via @ [u])) v = Follow"
      and rec: "client_Do net send e w request (via @ [u]) v = (contacted, outcome)"
      using client_Do_step [of net send e w request via u] less.prems by auto
    have v: "int (Suc (length via)) < ex_maxRedirects e" "validateURL net e w (Suc (length via)) v = None"
      using follow by (simp_all add: CheckRedirect_Follow)
    have "nat (ex_maxRedirects e - int (length (via @ [u]))) < nat (ex_maxRedirects e - int (length via))" using v(1) by simp
    from less.hyps [OF this rec] obtain more where
      more: "contacted = via @ [u] @ [v] @ more" "passed_from net e w (Suc (length via)) contacted"
      "int (length contacted) \<le> max (int (Suc (Suc (length via)))) (ex_maxRedirects e)" by auto
    have nth: "contacted ! Suc (length via) = v" using more(1) by (simp add: nth_append)
    have "passed_from net e w (length via) contacted"
      unfolding passed_from_def
    proof (intro allI impI)
      fix n assume n: "n < length contacted" "length via < n"
      show "validateURL net e w n (contacted ! n) = None"
      proof (cases "n = Suc (length via)")
        case True
        then show ?thesis using nth v(2) by simp
      next
        case False
        then show ?thesis using n more(2) unfolding passed_from_def by simp
      qed
    qed
    then show ?thesis using more(1,3) v(1) by auto
  qed
qed

section \<open>Runs\<close>

text \<open>The last exchange of a run, if the handler sends anything at all.\<close>

definition exchange :: "go_net \<Rightarrow> 'w transport \<Rightarrow> 'w webhook_executor \<Rightarrow> 'w \<Rightarrow> Job \<Rightarrow> (URL list \<times> (go_error + http_response)) option" where
  "exchange net send e w job = (case target_of net job of Inl _ \<Rightarrow> None
     | Inr u \<Rightarrow> (case json_Marshal net (request_body job) of Inl _ \<Rightarrow> None
       | Inr body \<Rightarrow> if validateURL net e w 0 u = None \<and> method_of job \<in> {''POST'', ''PUT'', ''PATCH''}
           then Some (Do_client net send e w (webhook_request job (method_of job) u body)) else None))"

lemma webhook_run_exchange:
  "fst (webhook_run net send e w job) = (case exchange net send e w job of None \<Rightarrow> [] | Some (contacted, _) \<Rightarrow> contacted)"
  by (auto simp: webhook_run_def exchange_def Let_def split: sum.splits option.splits prod.splits)

lemma exchange_SomeD:
  assumes "exchange net send e w job = Some (contacted, outcome)"
  shows "\<exists>u body. target_of net job = Inr u \<and> validateURL net e w 0 u = None \<and> method_of job \<in> {''POST'', ''PUT'', ''PATCH''} \<and>
    Do_client net send e w (webhook_request job (method_of job) u body) = (contacted, outcome)"
  using assms by (auto simp: exchange_def split: sum.splits if_splits)

text \<open>
  C13: No webhook leaves the process for an internal address: with the executor's own client and
  private networks not allowed, every target a run contacts, redirects included, is an http or
  https URL without credentials whose host is neither localhost nor an address inside the
  loopback, private, link-local or multicast ranges, also when written as an IPv4-mapped IPv6
  address, and every address the resolver gave for a name is checked the same way. The run
  ends after at most \<open>MaxRedirects\<close> requests, or one if that is less.
\<close>

theorem webhook_targets_safe:
  assumes "ex_client e = OwnClient t" and "\<not> ex_allowPrivateNetworks e" and "webhook_run net send e w job = (contacted, err)"
  shows "(\<forall>n < length contacted. safe_target net e w n (contacted ! n)) \<and> int (length contacted) \<le> max 1 (ex_maxRedirects e)"
proof (cases "exchange net send e w job")
  case None
  then have "contacted = []" using webhook_run_exchange [of net send e w job] assms(3) by simp
  then show ?thesis by simp
next
  case (Some ex)
  obtain outcome where ex: "ex = (contacted, outcome)"
    using webhook_run_exchange [of net send e w job] assms(3) Some by (cases ex) simp
  obtain u body where u: "validateURL net e w 0 u = None"
    "client_Do net send e w (webhook_request job (method_of job) u body) [] u = (contacted, outcome)"
    using exchange_SomeD [OF Some [unfolded ex]] assms(1) by (auto simp: Do_client_def webhook_request_def)
  from client_Do_contacted [OF u(2)] obtain more where more: "contacted = u # more" "int (length contacted) \<le> max 1 (ex_maxRedirects e)"
    "passed_from net e w 0 contacted" by auto
  have "validateURL net e w n (contacted ! n) = None" if "n < length contacted" for n
    using that more(1,3) u(1) by (cases n) (auto simp: passed_from_def)
  then show ?thesis using more(2) validateURL_safe [OF assms(2)] by blast
qed

definition sample_target :: "string \<Rightarrow> URL" where
  "sample_target host = \<lparr>url_Scheme = ''https'', url_User = None, url_Hostname = host\<rparr>"

definition sample_net :: go_net where
  "sample_net = \<lparr>url_Parse = (\<lambda>s. Inr (sample_target ''a.example'')), ParseAddr = (\<lambda>h. None), Addr_String = (\<lambda>a. ''x''),
     json_Marshal = (\<lambda>b. Inr ''{}'')\<rparr>"

definition sample_executor :: "int \<Rightarrow> unit webhook_executor" where
  "sample_executor redirects = NewExecutorWithConfig (\<lambda>w n h. Inr [V4 0x5DB8D822])
     \<lparr>wc_Client = None, wc_Resolver = None, wc_Timeout = 0, wc_MaxRedirects = redirects, wc_AllowPrivateNetworks = False\<rparr>"

definition sample_send :: "int \<Rightarrow> unit transport" where
  "sample_send status w request n u =
     Inr (if n = 0 then \<lparr>rsp_StatusCode = 302, rsp_Location = Some (Inr (sample_target ''b.example'')), rsp_Body = ''''\<rparr>
          else \<lparr>rsp_StatusCode = status, rsp_Location = None, rsp_Body = ''''\<rparr>)"

definition sample_hook :: Job where
  "sample_hook = zero_Job\<lparr>job_Task := zero_Task\<lparr>task_Metadata := [''url'' \<mapsto> ''https://a.example''], task_MaxRetries := 3\<rparr>\<rparr>"

lemma sample_passes: "validateURL sample_net (sample_executor k) w n (sample_target host) = None"
  if "host \<in> {''a.example'', ''b.example''}"
proof -
  have "validateAddr sample_net (sample_executor k) (V4 0x5DB8D822) = None" by code_simp
  moreover have "\<not> EqualFold ''a.example'' ''localhost''" "\<not> EqualFold ''b.example'' ''localhost''" by code_simp+
  ultimately show ?thesis using that
    by (auto simp: validateURL_def sample_target_def sample_net_def sample_executor_def NewExecutorWithConfig_def)
qed

lemma sample_exchange:
  "client_Do sample_net (sample_send status) (sample_executor k) () request [] (sample_target ''a.example'') =
     (if 2 \<le> k then ([sample_target ''a.example'', sample_target ''b.example''],
          Inr \<lparr>rsp_StatusCode = status, rsp_Location = None, rsp_Body = ''''\<rparr>)
      else ([sample_target ''a.example''],
          Inr \<lparr>rsp_StatusCode = 302, rsp_Location = Some (Inr (sample_target ''b.example'')), rsp_Body = ''''\<rparr>))"
proof -
  have "validateURL sample_net (sample_executor k) () 1 (sample_target ''b.example'') = None"
    by (rule sample_passes) simp
  then show ?thesis
    by (simp add: client_Do.simps Let_def sample_send_def redirect_status_def CheckRedirect_def sample_executor_def NewExecutorWithConfig_def)
qed

lemma sample_hook_run:
  "exchange sample_net (sample_send status) (sample_executor k) () sample_hook =
     Some (client_Do sample_net (sample_send status) (sample_executor k) ()
       (webhook_request sample_hook ''POST'' (sample_target ''a.example'') ''{}'') [] (sample_target ''a.example''))"
proof -
  have "target_of sample_net sample_hook = Inr (sample_target ''a.example'')" "method_of sample_hook = ''POST''"
    by code_simp+
  moreover have "validateURL sample_net (sample_executor k) () 0 (sample_target ''a.example'') = None"
    by (rule sample_passes) simp
  moreover have "ex_client (sample_executor k) = OwnClient (10 * Second)" "json_Marshal sample_net b = Inr ''{}''" for b
    by (simp_all add: sample_executor_def NewExecutorWithConfig_def sample_net_def)
  ultimately show ?thesis by (simp add: exchange_def Do_client_def webhook_request_def)
qed

theorem webhook_targets_safe_witness:
  "(\<exists>err. webhook_run sample_net (sample_send 200) (sample_executor 2) () sample_hook =
      ([sample_target ''a.example'', sample_target ''b.example''], err)) \<and>
   safe_target sample_net (sample_executor 2) () 0 (sample_target ''a.example'') \<and>
   safe_target sample_net (sample_executor 2) () 1 (sample_target ''b.example'')"
proof -
  have "fst (webhook_run sample_net (sample_send 200) (sample_executor 2) () sample_hook) =
      [sample_target ''a.example'', sample_target ''b.example'']"
    by (simp add: webhook_run_exchange sample_hook_run sample_exchange)
  then obtain err where run: "webhook_run sample_net (sample_send 200) (sample_executor 2) () sample_hook =
      ([sample_target ''a.example'', sample_target ''b.example''], err)"
    by (metis prod.collapse)
  have "ex_client (sample_executor 2) = OwnClient (10 * Second)" "\<not> ex_allowPrivateNetworks (sample_executor 2)"
    by (simp_all add: sample_executor_def NewExecutorWithConfig_def)
  from webhook_targets_safe [OF this run] have
    "safe_target sample_net (sample_executor 2) () 0 (sample_target ''a.example'')"
    "safe_target sample_net (sample_executor 2) () 1 (sample_target ''b.example'')" by (auto simp: less_Suc_eq)
  with run show ?thesis by blast
qed

text \<open>
  An address that the check misses: \<open>::ffff:0.0.0.0\<close>, the unspecified IPv4 address in IPv6 form,
  is not unspecified for \<open>netip\<close>, which does not unmap it there, and passes, while \<open>0.0.0.0\<close> does not.
\<close>

theorem mapped_unspecified_accepted:
  "validateAddr net (sample_executor k) (V6 0xFFFF00000000 []) = None \<and> validateAddr net (sample_executor k) (V4 0) \<noteq> None"
proof -
  have "\<not> internal_range (V6 0xFFFF00000000 [])" by (simp add: internal_v4_def dotted_def)
  moreover have "\<not> IsUnspecified (V6 0xFFFF00000000 [])" "IsUnspecified (V4 0)" by (simp_all add: IsUnspecified_def)
  moreover have "\<not> ex_allowPrivateNetworks (sample_executor k)" by (simp add: sample_executor_def NewExecutorWithConfig_def)
  ultimately show ?thesis using validateAddr_None by blast
qed

section \<open>Outcomes\<close>

text \<open>Errors made outside this program do not wrap its sentinel, and the body can always be encoded.\<close>

definition ordinary_errors :: "go_net \<Rightarrow> 'w transport \<Rightarrow> 'w webhook_executor \<Rightarrow> 'w \<Rightarrow> bool" where
  "ordinary_errors net send e w \<longleftrightarrow>
     (\<forall>r n u err. send w r n u = Inl err \<longrightarrow> \<not> errors_Is err ErrNoRetry) \<and>
     (\<forall>r n u response err. send w r n u = Inr response \<longrightarrow> rsp_Location response = Some (Inl err) \<longrightarrow> \<not> errors_Is err ErrNoRetry) \<and>
     (\<forall>n h err. ex_resolver e w n h = Inl err \<longrightarrow> \<not> errors_Is err ErrNoRetry) \<and>
     (\<forall>b err. json_Marshal net b \<noteq> Inl err)"

lemma New_not_sentinel: "HasPrefix m ''retry'' = False \<Longrightarrow> \<not> errors_Is (errors_New m) ErrNoRetry"
  by (cases m rule: list.exhaust) (auto simp: errors_Is_New ErrNoRetry_def errors_New_def)

lemma wrapf_not_sentinel: "errors_Is (wrapf p err) ErrNoRetry \<longleftrightarrow> errors_Is err ErrNoRetry"
  by (auto simp: errors_Is_wrapf ErrNoRetry_def errors_New_def wrapf_def)

lemma permanent_sentinel: "errors_Is (permanent m) ErrNoRetry" "errors_Is (permanent_cause m err) ErrNoRetry"
  by (simp_all add: permanent_def permanent_cause_def)

lemma validate_addrs_ordinary: "validate_addrs net e addrs = Some err \<Longrightarrow> \<not> errors_Is err ErrNoRetry"
  by (induction addrs) (auto simp: validateAddr_def New_not_sentinel split: option.splits if_splits)

lemma validateURL_ordinary:
  assumes "ordinary_errors net send e w" and "validateURL net e w n u = Some err"
  shows "\<not> errors_Is err ErrNoRetry"
  using assms validate_addrs_ordinary
  by (auto simp: validateURL_def Let_def validateAddr_def New_not_sentinel wrapf_not_sentinel ordinary_errors_def
      split: option.splits if_splits sum.splits)

lemma client_Do_error:
  assumes "ordinary_errors net send e w"
  shows "client_Do net send e w request via u = (contacted, Inl err) \<Longrightarrow> \<not> errors_Is err ErrNoRetry"
proof (induction "nat (ex_maxRedirects e - int (length via))" arbitrary: via u rule: less_induct)
  case less
  note unfold = client_Do.simps [of net send e w request via u]
  have outside: "send w r n v = Inl x \<Longrightarrow> \<not> errors_Is x ErrNoRetry"
    "send w r n v = Inr response \<Longrightarrow> rsp_Location response = Some (Inl x) \<Longrightarrow> \<not> errors_Is x ErrNoRetry" for r n v x response
    using assms by (simp_all add: ordinary_errors_def)
  show ?case
  proof (cases "send w request (length via) u")
    case (Inl x)
    then show ?thesis using less.prems outside(1) by (simp add: unfold)
  next
    case (Inr response)
    then obtain location where location: "redirect_status (rsp_StatusCode response)" "rsp_Location response = Some location"
      using less.prems by (auto simp: unfold Let_def split: if_splits option.splits)
    show ?thesis
    proof (cases location)
      case (Inl x)
      then show ?thesis using less.prems Inr location outside(2) by (simp add: unfold)
    next
      case (Inr v)
      show ?thesis
      proof (cases "CheckRedirect net e w (length (via @ [u])) v")
        case Follow
        then have "nat (ex_maxRedirects e - int (length (via @ [u]))) < nat (ex_maxRedirects e - int (length via))"
          by (simp add: CheckRedirect_Follow)
        moreover have "client_Do net send e w request (via @ [u]) v = (contacted, Inl err)"
          using Follow less.prems location Inr \<open>send w request (length via) u = Inr response\<close> by (simp add: unfold)
        ultimately show ?thesis by (rule less.hyps)
      next
        case (RedirectErr x)
        then show ?thesis using less.prems location Inr \<open>send w request (length via) u = Inr response\<close> validateURL_ordinary [OF assms]
          by (simp add: unfold CheckRedirect_def split: if_splits option.splits)
      qed (use less.prems location Inr \<open>send w request (length via) u = Inr response\<close> in \<open>simp add: unfold\<close>)
    qed
  qed
qed

text \<open>Which outcomes the remote side may still turn around.\<close>

definition transient :: "go_error + http_response \<Rightarrow> bool" where
  "transient outcome \<longleftrightarrow> (case outcome of Inl _ \<Rightarrow> True
     | Inr response \<Rightarrow> rsp_StatusCode response \<in> {408, 429} \<or> 500 \<le> rsp_StatusCode response)"

definition delivered :: "go_error + http_response \<Rightarrow> bool" where
  "delivered outcome \<longleftrightarrow> (case outcome of Inl _ \<Rightarrow> False
     | Inr response \<Rightarrow> 200 \<le> rsp_StatusCode response \<and> rsp_StatusCode response < 300)"

lemma response_error_verdict:
  "case response_error response of None \<Rightarrow> delivered (Inr response)
   | Some err \<Rightarrow> \<not> delivered (Inr response) \<and> (errors_Is err ErrNoRetry \<longleftrightarrow> \<not> transient (Inr response))"
  by (auto simp: response_error_def Let_def delivered_def transient_def New_not_sentinel permanent_sentinel)

text \<open>
  C32: A webhook job succeeds exactly when the last exchange ends with a 2xx status. Otherwise,
  with attempts left, the worker retries it exactly when something was sent and the exchange
  failed or ended with 408, 429 or a status from 500 on; a job that is never sent (no or a bad URL, an unsafe target, an
  unsupported method) and every other status go to the dead letters at once.
\<close>

theorem webhook_retried_iff:
  assumes "ordinary_errors net send e w" and "ex_client e = OwnClient t"
    and "job_Attempt job < task_MaxRetries (job_Task job)" and "0 < task_MaxRetries (job_Task job)"
  shows "case webhook_Handler net send e w timeout job of
      HandlerPanic \<Rightarrow> False
    | HandlerOk \<Rightarrow> (\<exists>contacted outcome. exchange net send e w job = Some (contacted, outcome) \<and> delivered outcome)
    | HandlerErr err \<Rightarrow> (case exchange net send e w job of None \<Rightarrow> \<not> worker_shouldRetry cfg job err
        | Some (contacted, outcome) \<Rightarrow> \<not> delivered outcome \<and> (worker_shouldRetry cfg job err \<longleftrightarrow> transient outcome))"
proof (cases "exchange net send e w job")
  case None
  then have "\<exists>err. snd (webhook_run net send e w job) = Some err \<and> errors_Is err ErrNoRetry"
    using assms(1)
    by (auto simp: exchange_def webhook_run_def target_of_def ordinary_errors_def Let_def permanent_sentinel split: sum.splits option.splits if_splits)
  then show ?thesis using None assms(4) by (auto simp: webhook_Handler_def worker_shouldRetry_def)
next
  case (Some ex)
  obtain contacted outcome where ex: "ex = (contacted, outcome)" by fastforce
  have run: "snd (webhook_run net send e w job) = (case outcome of
      Inl err \<Rightarrow> Some (wrapf ''webhook: request failed: '' err) | Inr response \<Rightarrow> response_error response)"
    using Some unfolding ex by (auto simp: exchange_def webhook_run_def Let_def split: sum.splits option.splits if_splits)
  show ?thesis
  proof (cases outcome)
    case (Inl err)
    have "\<not> errors_Is err ErrNoRetry"
      using exchange_SomeD [OF Some [unfolded ex]] client_Do_error [OF assms(1)] assms(2) Inl by (auto simp: Do_client_def)
    then show ?thesis using Some run assms(3,4) unfolding ex Inl
      by (simp add: webhook_Handler_def worker_shouldRetry_def wrapf_not_sentinel delivered_def transient_def)
  next
    case (Inr response)
    then show ?thesis using Some run assms(3,4) response_error_verdict [of response] unfolding ex
      by (auto simp: webhook_Handler_def worker_shouldRetry_def split: option.splits)
  qed
qed

theorem webhook_retried_iff_witness:
  "ordinary_errors sample_net (sample_send 503) (sample_executor 2) () \<and>
   (\<exists>err. webhook_Handler sample_net (sample_send 503) (sample_executor 2) () None sample_hook = HandlerErr err \<and>
      worker_shouldRetry server_retry_config sample_hook err)"
proof -
  have ordinary: "ordinary_errors sample_net (sample_send 503) (sample_executor 2) ()"
    by (simp add: ordinary_errors_def sample_net_def sample_send_def sample_executor_def NewExecutorWithConfig_def)
  have "ex_client (sample_executor 2) = OwnClient (10 * Second)" "job_Attempt sample_hook < task_MaxRetries (job_Task sample_hook)"
    "0 < task_MaxRetries (job_Task sample_hook)"
    by (simp_all add: sample_executor_def NewExecutorWithConfig_def sample_hook_def zero_Job_def)
  from webhook_retried_iff [OF ordinary this, where timeout = None and cfg = server_retry_config] ordinary show ?thesis
    by (auto simp: sample_hook_run sample_exchange delivered_def transient_def split: handler_outcome.splits)
qed

end
