(* ===== verification/Go_Duration.thy ===== *)
theory Go_Duration
  imports Floats Go_Strings
begin

text \<open>
  \<open>time.ParseDuration\<close>, which reads the durations of the configuration, on ASCII strings (the two
  spellings of microseconds with a Greek letter are left out): a sign, then numbers with a unit,
  each number with an optional fraction whose contribution is computed in \<open>float64\<close>. The sum is an
  \<open>uint64\<close>; it wraps where the source lets it wrap. The lemmas give the value of one number with
  its unit.
\<close>

section \<open>Model\<close>

fun leadingInt :: "nat \<Rightarrow> string \<Rightarrow> (nat \<times> string) option" where
  "leadingInt x [] = Some (x, [])"
| "leadingInt x (c # s) =
     (if \<not> is_digit c then Some (x, c # s)
      else if x > 2 ^ 63 div 10 then None
      else let x' = x * 10 + nat (digit_val c) in if x' > 2 ^ 63 then None else leadingInt x' s)"

fun leadingFraction :: "bool \<Rightarrow> nat \<Rightarrow> rat \<Rightarrow> string \<Rightarrow> nat \<times> rat \<times> string" where
  "leadingFraction overflow x scale [] = (x, scale, [])"
| "leadingFraction overflow x scale (c # s) =
     (if \<not> is_digit c then (x, scale, c # s)
      else if overflow then leadingFraction True x scale s
      else if x > (2 ^ 63 - 1) div 10 then leadingFraction True x scale s
      else let y = x * 10 + nat (digit_val c)
           in if y > 2 ^ 63 then leadingFraction True x scale s
              else leadingFraction False y (f64_mul scale 10) s)"

definition unitMap :: "string \<rightharpoonup> nat" where
  "unitMap u = (if u = ''ns'' then Some 1 else if u = ''us'' then Some 1000 else if u = ''ms'' then Some 1000000
     else if u = ''s'' then Some 1000000000 else if u = ''m'' then Some 60000000000
     else if u = ''h'' then Some 3600000000000 else None)"

definition unit_char :: "char \<Rightarrow> bool" where
  "unit_char c \<longleftrightarrow> c \<noteq> CHR ''.'' \<and> \<not> is_digit c"

definition fraction_value :: "nat \<Rightarrow> rat \<Rightarrow> nat \<Rightarrow> nat" where
  "fraction_value f scale un =
     nat \<lfloor>f64_mul (float64_of_int (int f)) (float64_round (float64_of_int (int un) / scale))\<rfloor>"

lemma leadingInt_length: "leadingInt x s = Some (v, r) \<Longrightarrow> length r \<le> length s"
  by (induction x s arbitrary: v r rule: leadingInt.induct) (auto simp: Let_def split: if_splits, fastforce)

lemma leadingFraction_length: "leadingFraction ov x sc s = (f, sc', r) \<Longrightarrow> length r \<le> length s"
  by (induction ov x sc s arbitrary: f sc' r rule: leadingFraction.induct) (auto simp: Let_def split: if_splits, fastforce+)

text \<open>The optional fraction: its digits, its scale, the rest, and whether there were digits.\<close>

definition parse_fraction :: "string \<Rightarrow> nat \<times> rat \<times> string \<times> bool" where
  "parse_fraction s = (case s of [] \<Rightarrow> (0, 1, [], False)
     | c # r \<Rightarrow> if c = CHR ''.'' then (let (f, scale, rest) = leadingFraction False 0 1 r in (f, scale, rest, length rest \<noteq> length r))
         else (0, 1, s, False))"

lemma parse_fraction_length: "parse_fraction s = (f, sc, r, post) \<Longrightarrow> length r \<le> length s"
  by (auto simp: parse_fraction_def le_Suc_eq dest: leadingFraction_length split: list.splits if_splits prod.splits)

function parse_units :: "nat \<Rightarrow> string \<Rightarrow> nat option" where
  "parse_units d s =
     (if s = [] then Some d
      else if \<not> (hd s = CHR ''.'' \<or> is_digit (hd s)) then None
      else case leadingInt 0 s of
             None \<Rightarrow> None
           | Some (v, s1) \<Rightarrow>
               (case parse_fraction s1 of (f, scale, s2, post) \<Rightarrow>
                  (if length s1 = length s \<and> \<not> post then None
                   else if takeWhile unit_char s2 = [] then None
                   else case unitMap (takeWhile unit_char s2) of
                          None \<Rightarrow> None
                        | Some un \<Rightarrow>
                            (if v > 2 ^ 63 div un then None
                             else let v' = (if f > 0 then v * un + fraction_value f scale un else v * un);
                                      d' = (d + v') mod 2 ^ 64
                                  in if v' > 2 ^ 63 \<or> d' > 2 ^ 63 then None
                                     else parse_units d' (dropWhile unit_char s2)))))"
  by pat_completeness auto
termination
proof (relation "measure (\<lambda>(d, s). length s)", simp, goal_cases)
  case (1 d s p v s1 q f sc q2 s2 post un v' d')
  then have "length s2 \<le> length s" using leadingInt_length parse_fraction_length by (metis le_trans)
  moreover have "length (dropWhile unit_char s2) < length s2"
    using 1 by (metis append_Nil length_append less_add_same_cancel2 length_greater_0_conv takeWhile_dropWhile_id)
  ultimately show ?case by simp
qed

declare parse_units.simps [simp del]

definition ParseDuration :: "string \<Rightarrow> duration option" where
  "ParseDuration s0 =
     (let (neg, s) = (case s0 of [] \<Rightarrow> (False, [])
        | c # cs \<Rightarrow> if c = CHR ''-'' then (True, cs) else if c = CHR ''+'' then (False, cs) else (False, s0))
      in if s = ''0'' then Some 0
         else if s = [] then None
         else case parse_units 0 s of
                None \<Rightarrow> None
              | Some d \<Rightarrow> if neg then Some (- int d) else if d > 2 ^ 63 - 1 then None else Some (int d))"

text \<open>The parsed value is an \<open>int64\<close>.\<close>

lemma parse_units_step:
  assumes "parse_units d s = Some r" and "s \<noteq> []"
  shows "\<exists>d' s'. length s' < length s \<and> d' \<le> 2 ^ 63 \<and> parse_units d' s' = Some r"
proof -
  obtain v s1 where 1: "leadingInt 0 s = Some (v, s1)"
    using assms unfolding parse_units.simps [of d s] by (auto split: if_splits option.splits)
  obtain f scale s2 post where 2: "parse_fraction s1 = (f, scale, s2, post)" by (metis prod_cases4)
  have u: "takeWhile unit_char s2 \<noteq> []"
    using assms unfolding parse_units.simps [of d s] by (auto simp: 1 2 split: if_splits)
  obtain un where 3: "unitMap (takeWhile unit_char s2) = Some un"
    using assms unfolding parse_units.simps [of d s] by (auto simp: 1 2 split: if_splits option.splits)
  have "length s2 \<le> length s" using leadingInt_length [OF 1] parse_fraction_length [OF 2] by simp
  moreover have "length (dropWhile unit_char s2) < length s2"
    using u by (metis append_Nil length_append less_add_same_cancel2 length_greater_0_conv takeWhile_dropWhile_id)
  moreover have "\<exists>d' \<le> 2 ^ 63. parse_units d' (dropWhile unit_char s2) = Some r"
    using assms unfolding parse_units.simps [of d s] by (simp add: 1 2 3 Let_def split: if_splits; force simp: not_less)
  ultimately show ?thesis by (meson less_le_trans)
qed

lemma parse_units_bound: "parse_units d s = Some r \<Longrightarrow> d \<le> 2 ^ 63 \<Longrightarrow> r \<le> 2 ^ 63"
proof (induction "length s" arbitrary: d s rule: less_induct)
  case less
  show ?case
  proof (cases "s = []")
    case True
    then show ?thesis using less.prems by (simp add: parse_units.simps [of d "[]"])
  next
    case False
    from parse_units_step [OF less.prems(1) this] less.hyps show ?thesis by blast
  qed
qed

lemma ParseDuration_int64:
  assumes "ParseDuration s = Some d"
  shows "int64_range d"
proof -
  have "r \<le> 2 ^ 63" if "parse_units 0 t = Some r" for t r using parse_units_bound [OF that] by simp
  then show ?thesis using assms
    by (auto simp: ParseDuration_def int64_range_def Let_def split_beta split: if_splits option.splits)
qed

section \<open>One number with its unit\<close>

definition nat_digits :: "nat \<Rightarrow> string \<Rightarrow> nat" where
  "nat_digits x s = foldl (\<lambda>v c. v * 10 + nat (digit_val c)) x s"

lemma nat_digits_ge: "x \<le> nat_digits x s"
proof (induction s arbitrary: x)
  case (Cons c s)
  have "x \<le> x * 10 + nat (digit_val c)" by simp
  also have "\<dots> \<le> nat_digits x (c # s)" using Cons by (simp add: nat_digits_def)
  finally show ?case .
qed (simp add: nat_digits_def)

lemma leadingInt_digits:
  "list_all is_digit ds \<Longrightarrow> nat_digits x ds \<le> 2 ^ 63 \<Longrightarrow> leadingInt x (ds @ r) = leadingInt (nat_digits x ds) r"
proof (induction ds arbitrary: x)
  case (Cons c ds)
  let ?x = "x * 10 + nat (digit_val c)"
  have le: "?x \<le> 2 ^ 63" using nat_digits_ge [of ?x ds] Cons.prems(2) by (simp add: nat_digits_def)
  then have "x \<le> 2 ^ 63 div 10" by simp
  then show ?case using Cons le by (simp add: nat_digits_def Let_def)
qed (simp add: nat_digits_def)

lemma nat_digits_decimal: "nat_digits 0 (decimal n) = n"
proof (induction n rule: decimal.induct)
  case (1 n)
  show ?case
    using 1 digit_char [of n] digit_char [of "n mod 10"]
    by (cases "n < 10") (simp_all add: decimal.simps [of n] nat_digits_def)
qed

lemma leadingInt_decimal:
  assumes "n \<le> 2 ^ 63" and "\<not> is_digit c"
  shows "leadingInt 0 (decimal n @ c # r) = Some (n, c # r)"
  using leadingInt_digits [of "decimal n" 0 "c # r"] decimal_props [of n] assms by (simp add: nat_digits_decimal)

text \<open>A number of units, printed and parsed again, is that many units.\<close>

lemma ParseDuration_unit:
  assumes "unitMap u = Some un" and "n * un < 2 ^ 63"
  shows "ParseDuration (decimal n @ u) = Some (int (n * un))"
proof -
  have u: "list_all unit_char u" "u \<noteq> []" "un > 0"
    using assms(1) by (auto simp: unitMap_def unit_char_def is_digit_def split: if_splits)
  then obtain c us where c: "u = c # us" "\<not> is_digit c" "c \<noteq> CHR ''.''" by (cases u) (auto simp: unit_char_def)
  obtain b bs where b: "decimal n = b # bs" "is_digit b" using decimal_props [of n] by (cases "decimal n") auto
  have sign: "b \<noteq> CHR ''-''" "b \<noteq> CHR ''+''" using b(2) sign_not_digit by metis+
  have "n \<le> n * un" using u(3) by simp
  then have n: "n \<le> 2 ^ 63" "n \<le> 2 ^ 63 div un"
    using assms(2) u(3) by (linarith, simp add: less_eq_div_iff_mult_less_eq)
  have take: "takeWhile unit_char u = u" "dropWhile unit_char u = []" using u(1) by (simp_all add: list_all_iff)
  have "parse_units 0 (decimal n @ u) = Some (n * un)"
    using leadingInt_decimal [OF n(1) c(2), of us] assms u(2) n(2) take b c(1,3)
    unfolding parse_units.simps [of 0 "decimal n @ u"]
    by (simp add: parse_fraction_def parse_units.simps [of _ "[]"])
  then show ?thesis using b sign assms(2) u(2) by (simp add: ParseDuration_def)
qed

end
