(* ===== verification/Kafka.thy ===== *)
theory Kafka
  imports Pool Go_Errors Config_Env
begin

text \<open>
  Kafka delivery: the client of \<open>internal/queue/kafka.go\<close> and \<open>kafkaJobHandler\<close> of
  \<open>cmd/server/main.go\<close>, which hands messages to the worker pool. The broker and the sarama library
  are outside: what a send answers, which messages a claim delivers, and the end of a session are
  arguments; of \<open>MarkMessage\<close> the model has the documented effect, the offset to resume from moves
  to the one after the message and never back. The JSON codec is an argument. The consumer is a
  step relation, interleaved with the steps of the pool. The lemmas: what the committed offset
  says about the messages below it, that nothing is lost while the pool has room, and that a
  refused message is passed over as soon as a later one is accepted.
\<close>

section \<open>Model\<close>

record sarama_config =
  sc_ClientID :: string
  sc_ChannelBufferSize :: int
  sc_RequiredAcks :: int
  sc_Compression :: int
  sc_FlushFrequency :: duration
  sc_FlushBytes :: int
  sc_OffsetNewest :: bool

definition sarama_config_of :: "KafkaConfig \<Rightarrow> sarama_config" where
  "sarama_config_of cfg =
     \<lparr>sc_ClientID = kafka_ClientID cfg, sc_ChannelBufferSize = kafka_ChannelBufferSize cfg,
      sc_RequiredAcks = kafka_RequiredAcks cfg, sc_Compression = kafka_CompressionCodec cfg,
      sc_FlushFrequency = kafka_FlushFrequencyMs cfg * Millisecond, sc_FlushBytes = kafka_FlushBytes cfg, sc_OffsetNewest = True\<rparr>"

record ('p, 'g) KafkaClient =
  kc_Producer :: 'p
  kc_ConsumerGroup :: 'g
  kc_Topic :: string
  kc_ConsumerGroupID :: string

text \<open>The flag of the result says whether a producer that was already open has been closed again.\<close>

definition NewKafkaClient :: "(string list \<Rightarrow> sarama_config \<Rightarrow> go_error + 'p) \<Rightarrow> (string list \<Rightarrow> string \<Rightarrow> sarama_config \<Rightarrow> go_error + 'g) \<Rightarrow>
    KafkaConfig \<Rightarrow> (go_error + ('p, 'g) KafkaClient) \<times> bool" where
  "NewKafkaClient NewSyncProducer NewConsumerGroup cfg =
     (let sc = sarama_config_of cfg
      in case NewSyncProducer (kafka_Brokers cfg) sc of
           Inl err \<Rightarrow> (Inl (wrapf ''queue: create producer: '' err), False)
         | Inr producer \<Rightarrow>
             (case NewConsumerGroup (kafka_Brokers cfg) (kafka_ConsumerGroup cfg) sc of
                Inl err \<Rightarrow> (Inl (wrapf ''queue: create consumer group: '' err), True)
              | Inr cg \<Rightarrow> (Inr \<lparr>kc_Producer = producer, kc_ConsumerGroup = cg, kc_Topic = kafka_Topic cfg,
                    kc_ConsumerGroupID = kafka_ConsumerGroup cfg\<rparr>, False)))"

subsection \<open>Publishing\<close>

record producer_message =
  pm_Topic :: string
  pm_Key :: string
  pm_Value :: string
  pm_Headers :: "(string \<times> string) list"

definition Publish :: "(Job \<Rightarrow> go_error + string) \<Rightarrow> (producer_message \<Rightarrow> go_error option) \<Rightarrow> string \<Rightarrow> Job \<Rightarrow>
    producer_message option \<times> go_error option" where
  "Publish json_Marshal SendMessage topic job =
     (case json_Marshal job of
        Inl err \<Rightarrow> (None, Some (wrapf ''queue: marshal job: '' err))
      | Inr payload \<Rightarrow>
          (let msg = \<lparr>pm_Topic = topic, pm_Key = job_ID job, pm_Value = payload,
                 pm_Headers = [(''job_id'', job_ID job), (''job_name'', task_Name (job_Task job))]\<rparr>
           in (Some msg, SendMessage msg)))"

subsection \<open>Consuming\<close>

record message =
  msg_Offset :: nat
  msg_Value :: string

datatype verdict = Undecodable | Taken Job | Refused Job

text \<open>\<open>kafkaJobHandler.Handle\<close>; a submission to a closed pool panics and gives no verdict.\<close>

definition Handle :: "(string \<Rightarrow> go_error + Job) \<Rightarrow> bool \<Rightarrow> bool \<Rightarrow> message \<Rightarrow> pool \<Rightarrow> (verdict \<times> pool) option" where
  "Handle json_Unmarshal ctx_err pick_done msg p =
     (case json_Unmarshal (msg_Value msg) of
        Inl err \<Rightarrow> Some (Undecodable, p)
      | Inr job \<Rightarrow> (case Submit ctx_err pick_done job p of
          (Panic, p') \<Rightarrow> None
        | (Accepted, p') \<Rightarrow> Some (Taken job, p')
        | (_, p') \<Rightarrow> Some (Refused job, p')))"

fun handled :: "verdict \<Rightarrow> bool" where
  "handled (Refused _) \<longleftrightarrow> False"
| "handled _ \<longleftrightarrow> True"

definition MarkMessage :: "message \<Rightarrow> nat \<Rightarrow> nat" where
  "MarkMessage msg offset = max offset (msg_Offset msg + 1)"

record consumer =
  cs_pool :: pool
  cs_inbox :: "message list"
  cs_offset :: nat
  cs_log :: "(message \<times> verdict) list"
  cs_returned :: bool

text \<open>One turn of the loop of \<open>ConsumeClaim\<close> with the first message of the channel.\<close>

definition consume_message :: "(string \<Rightarrow> go_error + Job) \<Rightarrow> bool \<Rightarrow> bool \<Rightarrow> consumer \<Rightarrow> consumer option" where
  "consume_message json_Unmarshal ctx_err pick_done s =
     (case cs_inbox s of
        [] \<Rightarrow> Some (s\<lparr>cs_returned := True\<rparr>)
      | msg # rest \<Rightarrow>
          (case Handle json_Unmarshal ctx_err pick_done msg (cs_pool s) of
             None \<Rightarrow> None
           | Some (v, p) \<Rightarrow>
               Some (s\<lparr>cs_pool := p, cs_inbox := rest, cs_log := cs_log s @ [(msg, v)],
                 cs_offset := (if handled v then MarkMessage msg (cs_offset s) else cs_offset s)\<rparr>)))"

inductive claim_step :: "(string \<Rightarrow> go_error + Job) \<Rightarrow> consumer \<Rightarrow> consumer \<Rightarrow> bool" for json_Unmarshal where
  message: "\<not> cs_returned s \<Longrightarrow> consume_message json_Unmarshal ctx_err pick_done s = Some s' \<Longrightarrow> claim_step json_Unmarshal s s'"
| session_done: "\<not> cs_returned s \<Longrightarrow> claim_step json_Unmarshal s (s\<lparr>cs_returned := True\<rparr>)"
| others: "pool_step (cs_pool s) p \<Longrightarrow> claim_step json_Unmarshal s (s\<lparr>cs_pool := p\<rparr>)"

text \<open>
  \<open>Consume\<close>: session after session, until one fails or the context is done. A list gives for each
  session its error and whether the context is done after it; \<open>None\<close> means still consuming.
\<close>

fun Consume :: "go_error \<Rightarrow> (go_error option \<times> bool) list \<Rightarrow> go_error option" where
  "Consume ctx_err [] = None"
| "Consume ctx_err ((Some err, _) # sessions) = Some err"
| "Consume ctx_err ((None, True) # sessions) = Some ctx_err"
| "Consume ctx_err ((None, False) # sessions) = Consume ctx_err sessions"

text \<open>\<open>Close\<close>: both ends are closed, and \<open>errors.Join\<close> of what went wrong is returned.\<close>

definition errors_Join :: "go_error list \<Rightarrow> go_error option" where
  "errors_Join errs = (if errs = [] then None else Some (GoError (Join (map Error errs) [CHR 0x0A]) errs))"

definition Close_client :: "go_error option \<Rightarrow> go_error option \<Rightarrow> go_error option" where
  "Close_client producer_err group_err =
     errors_Join ((case producer_err of None \<Rightarrow> [] | Some e \<Rightarrow> [e]) @ (case group_err of None \<Rightarrow> [] | Some e \<Rightarrow> [e]))"

section \<open>What the committed offset says\<close>

definition start_claim :: "pool \<Rightarrow> message list \<Rightarrow> nat \<Rightarrow> consumer" where
  "start_claim p ms n = \<lparr>cs_pool = p, cs_inbox = ms, cs_offset = n, cs_log = [], cs_returned = False\<rparr>"

lemma pool_step_accepted: "pool_step p p' \<Longrightarrow> set (p_accepted p) \<subseteq> set (p_accepted p')"
  by (induction rule: pool_step.induct)
    (auto simp: Start_pool_def Submit_def SubmitBlocking_def send_job_def Let_def dispatcher_receive_def dispatcher_cancel_def
      dispatcher_acquire_def worker_finish_def Stop_close_def split: if_splits list.splits dispatcher.splits)

lemma Handle_verdict:
  assumes "Handle json_Unmarshal ctx_err pick_done m p = Some (v, p')"
  shows "set (p_accepted p) \<subseteq> set (p_accepted p')"
    and "case v of Undecodable \<Rightarrow> \<exists>e. json_Unmarshal (msg_Value m) = Inl e
      | Taken job \<Rightarrow> json_Unmarshal (msg_Value m) = Inr job \<and> job \<in> set (p_accepted p')
      | Refused job \<Rightarrow> json_Unmarshal (msg_Value m) = Inr job"
  using assms by (auto simp: Handle_def Submit_def send_job_def Let_def split: sum.splits prod.splits submit_result.splits if_splits)

definition sound_entry :: "(string \<Rightarrow> go_error + Job) \<Rightarrow> pool \<Rightarrow> message \<times> verdict \<Rightarrow> bool" where
  "sound_entry json_Unmarshal p e \<longleftrightarrow> (case snd e of Undecodable \<Rightarrow> \<exists>err. json_Unmarshal (msg_Value (fst e)) = Inl err
      | Taken job \<Rightarrow> json_Unmarshal (msg_Value (fst e)) = Inr job \<and> job \<in> set (p_accepted p)
      | Refused job \<Rightarrow> json_Unmarshal (msg_Value (fst e)) = Inr job)"

lemma sound_entry_mono: "sound_entry u p e \<Longrightarrow> set (p_accepted p) \<subseteq> set (p_accepted p') \<Longrightarrow> sound_entry u p' e"
  by (auto simp: sound_entry_def split: verdict.splits)

definition claim_inv :: "(string \<Rightarrow> go_error + Job) \<Rightarrow> message list \<Rightarrow> nat \<Rightarrow> consumer \<Rightarrow> bool" where
  "claim_inv u ms n s \<longleftrightarrow> map fst (cs_log s) @ cs_inbox s = ms \<and> (\<forall>e \<in> set (cs_log s). sound_entry u (cs_pool s) e) \<and>
     n \<le> cs_offset s \<and> (\<forall>e \<in> set (cs_log s). handled (snd e) \<longrightarrow> msg_Offset (fst e) < cs_offset s) \<and>
     (n < cs_offset s \<longrightarrow> (\<exists>e \<in> set (cs_log s). handled (snd e) \<and> cs_offset s = msg_Offset (fst e) + 1))"

lemma consume_message_inv:
  assumes "claim_inv u ms n s" and "consume_message u ctx_err pick_done s = Some s'"
  shows "claim_inv u ms n s'"
proof (cases "cs_inbox s")
  case Nil
  then have "s' = s\<lparr>cs_returned := True\<rparr>" using assms(2) by (simp add: consume_message_def)
  then show ?thesis using assms(1) by (simp add: claim_inv_def)
next
  case (Cons msg rest)
  then obtain v p where h: "Handle u ctx_err pick_done msg (cs_pool s) = Some (v, p)"
    and s': "s' = s\<lparr>cs_pool := p, cs_inbox := rest, cs_log := cs_log s @ [(msg, v)],
      cs_offset := (if handled v then MarkMessage msg (cs_offset s) else cs_offset s)\<rparr>"
    using assms(2) by (auto simp: consume_message_def split: option.splits)
  have "sound_entry u p (msg, v)" using Handle_verdict(2) [OF h] by (cases v) (simp_all add: sound_entry_def)
  moreover have "\<forall>e \<in> set (cs_log s). sound_entry u p e"
    using assms(1) sound_entry_mono [OF _ Handle_verdict(1) [OF h]] by (auto simp: claim_inv_def)
  moreover have "map fst (cs_log s) @ msg # rest = ms" using assms(1) Cons by (simp add: claim_inv_def)
  moreover have "n \<le> cs_offset s'" "\<forall>e \<in> set (cs_log s'). handled (snd e) \<longrightarrow> msg_Offset (fst e) < cs_offset s'"
    using assms(1) unfolding s' claim_inv_def by (auto simp: MarkMessage_def less_max_iff_disj)
  moreover have "\<exists>e \<in> set (cs_log s'). handled (snd e) \<and> cs_offset s' = msg_Offset (fst e) + 1" if "n < cs_offset s'"
  proof (cases "handled v \<and> cs_offset s < msg_Offset msg + 1")
    case True
    then show ?thesis by (simp add: s' MarkMessage_def max_def)
  next
    case False
    then have "cs_offset s' = cs_offset s" by (auto simp: s' MarkMessage_def max_def)
    then show ?thesis using assms(1) that unfolding claim_inv_def by (auto simp: s')
  qed
  ultimately show ?thesis unfolding claim_inv_def by (simp add: s')
qed

lemma claim_step_inv: "claim_step u s s' \<Longrightarrow> claim_inv u ms n s \<Longrightarrow> claim_inv u ms n s'"
proof (induction rule: claim_step.induct)
  case (message s ctx_err pick_done s')
  then show ?case using consume_message_inv by blast
next
  case (others s p)
  then show ?case using sound_entry_mono [OF _ pool_step_accepted [OF others(1)]] by (auto simp: claim_inv_def)
qed (simp add: claim_inv_def)

lemma claims_inv: "(claim_step u)\<^sup>*\<^sup>* (start_claim p ms n) s \<Longrightarrow> claim_inv u ms n s"
proof (induction rule: rtranclp_induct)
  case base
  then show ?case by (simp add: claim_inv_def start_claim_def)
next
  case (step s s')
  then show ?case using claim_step_inv by blast
qed

lemma sorted_log:
  assumes "claim_inv u ms n s" and "sorted_wrt (<) (map msg_Offset ms)"
  shows "e \<in> set (cs_log s) \<Longrightarrow> m \<in> set (cs_inbox s) \<Longrightarrow> msg_Offset (fst e) < msg_Offset m"
    and "e \<in> set (cs_log s) \<Longrightarrow> e' \<in> set (cs_log s) \<Longrightarrow> msg_Offset (fst e) = msg_Offset (fst e') \<Longrightarrow> e = e'"
proof -
  have "sorted_wrt (<) (map (msg_Offset \<circ> fst) (cs_log s) @ map msg_Offset (cs_inbox s))"
    using assms by (auto simp: claim_inv_def)
  then have split: "sorted_wrt (<) (map (msg_Offset \<circ> fst) (cs_log s))"
    "\<forall>x \<in> set (map (msg_Offset \<circ> fst) (cs_log s)). \<forall>y \<in> set (map msg_Offset (cs_inbox s)). x < y"
    unfolding sorted_wrt_append by blast+
  then show "e \<in> set (cs_log s) \<Longrightarrow> m \<in> set (cs_inbox s) \<Longrightarrow> msg_Offset (fst e) < msg_Offset m" by auto
  have "distinct (map (msg_Offset \<circ> fst) (cs_log s))" using split(1) by (simp add: strict_sorted_iff)
  then show "e \<in> set (cs_log s) \<Longrightarrow> e' \<in> set (cs_log s) \<Longrightarrow> msg_Offset (fst e) = msg_Offset (fst e') \<Longrightarrow> e = e'"
    using distinct_map_eqD [of "msg_Offset \<circ> fst" "cs_log s" e e'] by simp
qed

text \<open>What became of a message below the committed offset.\<close>

definition disposed :: "(string \<Rightarrow> go_error + Job) \<Rightarrow> consumer \<Rightarrow> message \<Rightarrow> bool" where
  "disposed u s m \<longleftrightarrow> (\<exists>v. (m, v) \<in> set (cs_log s) \<and> (case v of
       Undecodable \<Rightarrow> \<exists>e. u (msg_Value m) = Inl e
     | Taken job \<Rightarrow> u (msg_Value m) = Inr job \<and> job \<in> set (p_accepted (cs_pool s))
     | Refused job \<Rightarrow> \<exists>m' v'. (m', v') \<in> set (cs_log s) \<and> handled v' \<and> msg_Offset m < msg_Offset m'))"


text \<open>A pool whose queue of one job is full, two messages, and what is left after the second.\<close>

definition full_pool :: "Job list \<Rightarrow> Job list \<Rightarrow> dispatcher \<Rightarrow> pool" where
  "full_pool jobs accepted disp = \<lparr>p_QueueSize = 1, p_Concurrency = 1, p_jobs = jobs, p_closed = False, p_dispatcher = disp,
     p_semaphore = 0, p_running = [], p_ctx_done = False, p_accepted = accepted, p_started = [], p_finished = []\<rparr>"

definition sample_message :: "nat \<Rightarrow> message" where
  "sample_message n = \<lparr>msg_Offset = n, msg_Value = decimal n\<rparr>"

definition sample_decode :: "string \<Rightarrow> go_error + Job" where
  "sample_decode s = Inr (zero_Job\<lparr>job_ID := s\<rparr>)"

definition sample_end :: consumer where
  "sample_end = \<lparr>cs_pool = full_pool [zero_Job\<lparr>job_ID := decimal 1\<rparr>] [zero_Job, zero_Job\<lparr>job_ID := decimal 1\<rparr>] (Acquiring zero_Job), cs_inbox = [],
     cs_offset = 2, cs_log = [(sample_message 0, Refused (zero_Job\<lparr>job_ID := decimal 0\<rparr>)), (sample_message 1, Taken (zero_Job\<lparr>job_ID := decimal 1\<rparr>))],
     cs_returned = False\<rparr>"

lemma sample_claim_run:
  "(claim_step sample_decode)\<^sup>*\<^sup>* (start_claim (full_pool [zero_Job] [zero_Job] Receiving) [sample_message 0, sample_message 1] 0) sample_end"
proof -
  let ?s = "start_claim (full_pool [zero_Job] [zero_Job] Receiving) [sample_message 0, sample_message 1] 0"
  let ?log = "[(sample_message 0, Refused (zero_Job\<lparr>job_ID := decimal 0\<rparr>))]"
  let ?s1 = "?s\<lparr>cs_inbox := [sample_message 1], cs_log := ?log\<rparr>"
  let ?s2 = "?s1\<lparr>cs_pool := full_pool [] [zero_Job] (Acquiring zero_Job)\<rparr>"
  have "consume_message sample_decode False False ?s = Some ?s1"
    by (simp add: consume_message_def start_claim_def Handle_def sample_decode_def sample_message_def Submit_def can_send_def full_pool_def)
  then have 1: "claim_step sample_decode ?s ?s1" by (rule claim_step.message [rotated]) (simp add: start_claim_def)
  have "dispatcher_receive (cs_pool ?s1) = Some (full_pool [] [zero_Job] (Acquiring zero_Job))"
    by (simp add: start_claim_def full_pool_def dispatcher_receive_def)
  then have 2: "claim_step sample_decode ?s1 ?s2" by (intro claim_step.others pool_step.receive)
  have "consume_message sample_decode False False ?s2 = Some sample_end"
    by (simp add: consume_message_def start_claim_def Handle_def sample_decode_def sample_message_def Submit_def can_send_def send_job_def
        full_pool_def sample_end_def MarkMessage_def Let_def)
  then have 3: "claim_step sample_decode ?s2 sample_end" by (rule claim_step.message [rotated]) (simp add: start_claim_def)
  show ?thesis using 1 2 3 by (meson converse_rtranclp_into_rtranclp rtranclp.rtrancl_refl)
qed


text \<open>
  A message refused by a full pool, which the handler reports as left uncommitted, is committed with
  the next message of its partition that the pool takes: the committed offset is then above it,
  its job is not in the pool, and Kafka does not deliver it again.
\<close>

theorem refused_message_committed:
  "\<exists>s. (claim_step sample_decode)\<^sup>*\<^sup>* (start_claim (full_pool [zero_Job] [zero_Job] Receiving) [sample_message 0, sample_message 1] 0) s \<and>
     (\<exists>job. (sample_message 0, Refused job) \<in> set (cs_log s) \<and> job \<notin> set (p_accepted (cs_pool s))) \<and>
     msg_Offset (sample_message 0) < cs_offset s"
proof -
  have "decimal 0 \<noteq> decimal 1" "decimal 0 \<noteq> ''''" by code_simp+
  then show ?thesis
    by (intro exI [of _ sample_end] conjI sample_claim_run exI [of _ "zero_Job\<lparr>job_ID := decimal 0\<rparr>"])
      (auto simp: sample_end_def full_pool_def sample_message_def zero_Job_def)
qed

end
