(* ===== verification/Readiness.thy ===== *)
theory Readiness
  imports Redlock Go_Strings
begin

text \<open>
  The readiness probe of \<open>cmd/server/main.go\<close> with its snapshot. What the pings answer at a request
  is an argument (\<open>None\<close> is success); a ping that runs into the timeout of two seconds answers an
  error. The handler looks at the snapshot and stores a new one in two separate critical sections; a
  request of a history may therefore be marked as having missed an older snapshot before the
  one it would find now. The lemmas: every answer repeats the
  verdict of a probe no older than the snapshot may be, and the verdict asks for the very
  quorum that the lock manager needs.
\<close>

section \<open>Model\<close>

record probe =
  pb_postgres :: "string option"
  pb_redis :: "string option list"

record readinessSnapshot =
  snap_status :: int
  snap_body :: "string \<times> (string \<times> string) list"
  snap_expires :: instant

definition readinessCacheTTL :: duration where
  "readinessCacheTTL = 2 * Second"

definition zero_snapshot :: readinessSnapshot where
  "zero_snapshot = \<lparr>snap_status = 0, snap_body = ('''', []), snap_expires = 0\<rparr>"

definition ping_text :: "string option \<Rightarrow> string" where
  "ping_text r = (case r of None \<Rightarrow> ''ok'' | Some err \<Rightarrow> err)"

definition alive :: "probe \<Rightarrow> nat" where
  "alive p = length (filter (\<lambda>r. r = None) (pb_redis p))"

definition redis_checks :: "probe \<Rightarrow> (string \<times> string) list" where
  "redis_checks p = map (\<lambda>(i, r). (''redis['' @ Itoa (int i) @ '']'', ping_text r)) (enumerate 0 (pb_redis p))"

definition run_checks :: "probe \<Rightarrow> int \<times> string \<times> (string \<times> string) list" where
  "run_checks p =
     (let n = length (pb_redis p);
          quorum = n div 2 + 1;
          checks = (''postgres'', ping_text (pb_postgres p)) # redis_checks p;
          short = alive p < quorum;
          checks = (if short then checks @ [(''redis_quorum'', Itoa (int (alive p)) @ ''/'' @ Itoa (int n) @ '' (need '' @ Itoa (int quorum) @ '')'')]
                    else checks);
          ok = (pb_postgres p = None \<and> \<not> short)
      in (if ok then 200 else 503, if ok then ''ready'' else ''not_ready'', checks))"

definition probe_and_store :: "instant \<Rightarrow> probe \<Rightarrow> (int \<times> string \<times> (string \<times> string) list) \<times> readinessSnapshot" where
  "probe_and_store now p =
     (run_checks p, \<lparr>snap_status = fst (run_checks p), snap_body = snd (run_checks p), snap_expires = now + readinessCacheTTL\<rparr>)"

definition readinessHandler :: "instant \<Rightarrow> probe \<Rightarrow> readinessSnapshot \<Rightarrow> (int \<times> string \<times> (string \<times> string) list) \<times> readinessSnapshot" where
  "readinessHandler now p snapshot =
     (if snap_expires snapshot \<noteq> 0 \<and> now < snap_expires snapshot then ((snap_status snapshot, snap_body snapshot), snapshot)
      else probe_and_store now p)"

text \<open>
  A history of requests, in the order in which they answer or store: the answers, and the snapshot at the
  end. A request with \<open>missed\<close> had looked before the last store.
\<close>

fun ready_run :: "(instant \<times> bool \<times> probe) list \<Rightarrow> readinessSnapshot \<Rightarrow> (int \<times> string \<times> (string \<times> string) list) list \<times> readinessSnapshot" where
  "ready_run [] snapshot = ([], snapshot)"
| "ready_run ((now, missed, p) # reqs) snapshot =
     (let (answer, snapshot) = (if missed then probe_and_store now p else readinessHandler now p snapshot); (answers, snapshot) = ready_run reqs snapshot
      in (answer # answers, snapshot))"

section \<open>Answers are fresh\<close>

lemma ready_run_append:
  "ready_run (xs @ ys) s = (let (as, s') = ready_run xs s; (bs, s'') = ready_run ys s' in (as @ bs, s''))"
  by (induction xs arbitrary: s) (auto simp: Let_def split: prod.splits)

lemma length_ready_run [simp]: "length (fst (ready_run xs s)) = length xs"
  by (induction xs arbitrary: s) (auto simp: Let_def split_beta)

text \<open>The snapshot is the verdict of some request of the history.\<close>

definition snapshot_of :: "(instant \<times> bool \<times> probe) list \<Rightarrow> readinessSnapshot \<Rightarrow> bool" where
  "snapshot_of reqs s \<longleftrightarrow> snap_expires s = 0 \<or> (\<exists>j < length reqs. snap_expires s = fst (reqs ! j) + readinessCacheTTL \<and>
     (snap_status s, snap_body s) = run_checks (snd (snd (reqs ! j))))"

lemma snapshot_of_append: "snapshot_of xs s \<Longrightarrow> snapshot_of (xs @ ys) s"
  unfolding snapshot_of_def by (metis length_append nth_append trans_less_add1)

definition healthy :: "'n Manager \<Rightarrow> probe \<Rightarrow> bool" where
  "healthy m p \<longleftrightarrow> pb_postgres p = None \<and> lk_Quorum (mgr_cfg m) \<le> int (alive p)"

lemma run_checks_status:
  assumes "length (pb_redis p) = length clients"
  shows "fst (run_checks p) = (if healthy (NewManager clients server_lock_config) p then 200 else 503)"
proof -
  have "lk_Quorum (mgr_cfg (NewManager clients server_lock_config)) = int (length clients div 2 + 1)"
    by (simp add: NewManager_def server_lock_config_def Let_def zdiv_int)
  then show ?thesis using assms by (auto simp: run_checks_def healthy_def Let_def)
qed

lemma ready_run_fresh:
  "snapshot_of reqs (snd (ready_run reqs zero_snapshot)) \<and>
   (\<forall>i < length reqs. \<exists>j \<le> i. (j = i \<or> fst (reqs ! i) < fst (reqs ! j) + readinessCacheTTL) \<and>
      fst (ready_run reqs zero_snapshot) ! i = run_checks (snd (snd (reqs ! j))))"
proof (induction reqs rule: rev_induct)
  case Nil
  then show ?case by (simp add: snapshot_of_def zero_snapshot_def)
next
  case (snoc req reqs)
  obtain now missed p where req: "req = (now, missed, p)" by (metis prod_cases3)
  obtain as s where run: "ready_run reqs zero_snapshot = (as, s)" by fastforce
  have len: "length as = length reqs" using length_ready_run [of reqs zero_snapshot] run by simp
  obtain a s' where step: "(if missed then probe_and_store now p else readinessHandler now p s) = (a, s')" by fastforce
  have all: "ready_run (reqs @ [req]) zero_snapshot = (as @ [a], s')" by (simp add: ready_run_append run req step)
  have old: "snapshot_of reqs s" using snoc run by simp
  have last: "snapshot_of (reqs @ [req]) s' \<and> (\<exists>j \<le> length reqs. (j = length reqs \<or> now < fst ((reqs @ [req]) ! j) + readinessCacheTTL) \<and>
      a = run_checks (snd (snd ((reqs @ [req]) ! j))))"
  proof (cases "\<not> missed \<and> snap_expires s \<noteq> 0 \<and> now < snap_expires s")
    case True
    then have a: "a = (snap_status s, snap_body s)" "s' = s" using step by (auto simp: readinessHandler_def)
    obtain j where "j < length reqs" "snap_expires s = fst (reqs ! j) + readinessCacheTTL" "(snap_status s, snap_body s) = run_checks (snd (snd (reqs ! j)))"
      using old True by (auto simp: snapshot_of_def)
    then show ?thesis using a True snapshot_of_append [OF old] by (intro conjI exI [of _ j]) (simp_all add: nth_append)
  next
    case False
    then have a: "a = run_checks p" "snap_expires s' = now + readinessCacheTTL" "(snap_status s', snap_body s') = run_checks p"
      using step by (auto simp: readinessHandler_def probe_and_store_def split: if_splits)
    have "snapshot_of (reqs @ [req]) s'"
      unfolding snapshot_of_def by (intro disjI2 exI [of _ "length reqs"]) (simp add: a(2,3) req)
    then show ?thesis by (intro conjI exI [of _ "length reqs"]) (simp_all add: a(1) req)
  qed
  have "\<exists>j \<le> i. (j = i \<or> fst ((reqs @ [req]) ! i) < fst ((reqs @ [req]) ! j) + readinessCacheTTL) \<and> (as @ [a]) ! i = run_checks (snd (snd ((reqs @ [req]) ! j)))"
    if i: "i < length (reqs @ [req])" for i
  proof (cases "i = length reqs")
    case True
    then show ?thesis using last len by (simp add: req nth_append)
  next
    case False
    with i have "i < length reqs" by simp
    with snoc.IH run obtain j where "j \<le> i" "j = i \<or> fst (reqs ! i) < fst (reqs ! j) + readinessCacheTTL" "as ! i = run_checks (snd (snd (reqs ! j)))"
      by auto
    then show ?thesis using \<open>i < length reqs\<close> len by (intro exI [of _ j]) (auto simp: nth_append)
  qed
  then show ?case using last all by simp
qed

text \<open>
  C35: The readiness probe is honest and fresh. Every answer is 200 or 503, and it is the verdict
  of a probe made for this request or less than two seconds before it; the verdict is 200 exactly
  when PostgreSQL answered and as many Redis servers did as the lock manager of the server
  needs for a lock.
\<close>

theorem readiness_fresh:
  assumes "i < length reqs" and "\<forall>req \<in> set reqs. length (pb_redis (snd (snd req))) = length clients"
  shows "\<exists>j \<le> i. (j = i \<or> fst (reqs ! i) < fst (reqs ! j) + 2 * Second) \<and>
    fst (fst (ready_run reqs zero_snapshot) ! i) = (if healthy (NewManager clients server_lock_config) (snd (snd (reqs ! j))) then 200 else 503)"
proof -
  obtain j where j: "j \<le> i" "j = i \<or> fst (reqs ! i) < fst (reqs ! j) + readinessCacheTTL"
    "fst (ready_run reqs zero_snapshot) ! i = run_checks (snd (snd (reqs ! j)))"
    using ready_run_fresh [of reqs] assms(1) by blast
  have "reqs ! j \<in> set reqs" using j(1) assms(1) by simp
  then show ?thesis using j run_checks_status assms(2) by (metis readinessCacheTTL_def)
qed

definition sample_probes :: "(instant \<times> bool \<times> probe) list" where
  "sample_probes = [(10 * Second, False, \<lparr>pb_postgres = None, pb_redis = [None, Some ''timeout'', None]\<rparr>),
     (11 * Second, False, \<lparr>pb_postgres = Some ''down'', pb_redis = [None, None, None]\<rparr>),
     (13 * Second, False, \<lparr>pb_postgres = Some ''down'', pb_redis = [None, None, None]\<rparr>)]"

theorem readiness_fresh_witness:
  "map fst (fst (ready_run sample_probes zero_snapshot)) = [200, 200, 503] \<and>
   (\<exists>j \<le> 2. (j = 2 \<or> fst (sample_probes ! 2) < fst (sample_probes ! j) + 2 * Second) \<and>
      fst (fst (ready_run sample_probes zero_snapshot) ! 2) =
        (if healthy (NewManager [''a'', ''b'', ''c''] server_lock_config) (snd (snd (sample_probes ! j))) then 200 else 503))"
proof
  show "map fst (fst (ready_run sample_probes zero_snapshot)) = [200, 200, 503]" by code_simp
qed (rule readiness_fresh; simp add: sample_probes_def)

end
