(* ===== verification/Observability.thy ===== *)
theory Observability
  imports Go_Errors Encoding Config_Env
begin

text \<open>
  The logger of \<open>internal/logger/logger.go\<close> and the metrics registry of
  \<open>internal/metrics/metrics.go\<close>, as the descriptions they hand to zerolog and to the Prometheus
  client; the level parser and the registerer are arguments. \<open>BuildFQName\<close> is the documented
  way in which Prometheus forms the name of a metric. The lemmas: the names of the registry are
  pairwise different, so a registerer that refuses just the names in use takes all of them, and
  a second registration of the same registry fails.
\<close>

section \<open>Logger\<close>

datatype log_output = ConsoleWriter | Stdout

record 'l zero_logger =
  zl_level :: 'l
  zl_output :: log_output
  zl_fields :: "(string \<times> string) list"
  zl_caller :: bool

definition New_logger :: "(string \<Rightarrow> go_error + 'l) \<Rightarrow> LoggerConfig \<Rightarrow> go_error + 'l zero_logger" where
  "New_logger ParseLevel cfg =
     (case ParseLevel (log_Level cfg) of
        Inl err \<Rightarrow> Inl (wrapf (''logger: invalid level '' @ quoted (log_Level cfg) @ '': '') err)
      | Inr level \<Rightarrow> Inr \<lparr>zl_level = level, zl_output = (if log_Pretty cfg then ConsoleWriter else Stdout),
          zl_fields = [(''service'', log_ServiceName cfg), (''env'', log_Environment cfg)], zl_caller = log_AddCaller cfg\<rparr>)"

definition WithComponent :: "'l zero_logger \<Rightarrow> string \<Rightarrow> 'l zero_logger" where
  "WithComponent lg component = lg\<lparr>zl_fields := zl_fields lg @ [(''component'', component)]\<rparr>"

section \<open>Metrics\<close>

datatype collector_kind = Counter | Gauge | Histogram | CounterVec "string list"

record collector =
  col_Namespace :: string
  col_Subsystem :: string
  col_Name :: string
  col_Help :: string
  col_Kind :: collector_kind

record Registry =
  reg_Namespace :: string
  reg_Subsystem :: string
  reg_JobEnqueued :: collector
  reg_JobStarted :: collector
  reg_JobCompleted :: collector
  reg_JobFailed :: collector
  reg_JobCancelled :: collector
  reg_WorkerInFlight :: collector
  reg_JobDuration :: collector
  reg_HTTPRequests :: collector

definition NewRegistry :: "string \<Rightarrow> string \<Rightarrow> Registry" where
  "NewRegistry namespace subsystem =
     (let opts = (\<lambda>name help kind. \<lparr>col_Namespace = namespace, col_Subsystem = subsystem, col_Name = name, col_Help = help, col_Kind = kind\<rparr>)
      in \<lparr>reg_Namespace = namespace, reg_Subsystem = subsystem,
          reg_JobEnqueued = opts ''jobs_enqueued_total'' ''Total number of jobs enqueued.'' Counter,
          reg_JobStarted = opts ''jobs_started_total'' ''Total number of jobs started.'' Counter,
          reg_JobCompleted = opts ''jobs_completed_total'' ''Total number of jobs completed successfully.'' Counter,
          reg_JobFailed = opts ''jobs_failed_total'' ''Total number of jobs that failed.'' Counter,
          reg_JobCancelled = opts ''jobs_cancelled_total'' ''Total number of jobs cancelled.'' Counter,
          reg_WorkerInFlight = opts ''worker_in_flight'' ''Number of jobs currently being processed.'' Gauge,
          reg_JobDuration = opts ''job_duration_seconds'' ''Execution duration of jobs in seconds.'' Histogram,
          reg_HTTPRequests = opts ''http_requests_total'' ''Total HTTP requests partitioned by method, path, and status.''
            (CounterVec [''method'', ''path'', ''status''])\<rparr>)"

definition collectors :: "Registry \<Rightarrow> collector list" where
  "collectors r = [reg_JobEnqueued r, reg_JobStarted r, reg_JobCompleted r, reg_JobFailed r, reg_JobCancelled r,
     reg_WorkerInFlight r, reg_JobDuration r, reg_HTTPRequests r]"

text \<open>The loop of \<open>Register\<close>: the collectors before the first refused one stay registered.\<close>

fun register_all :: "(collector \<Rightarrow> 'r \<Rightarrow> go_error + 'r) \<Rightarrow> collector list \<Rightarrow> 'r \<Rightarrow> go_error option \<times> 'r" where
  "register_all registerer [] st = (None, st)"
| "register_all registerer (c # cs) st = (case registerer c st of
     Inl err \<Rightarrow> (Some err, st)
   | Inr st' \<Rightarrow> register_all registerer cs st')"

definition Register_metrics :: "(collector \<Rightarrow> 'r \<Rightarrow> go_error + 'r) \<Rightarrow> Registry \<Rightarrow> 'r \<Rightarrow> go_error option \<times> 'r" where
  "Register_metrics registerer r st = register_all registerer (collectors r) st"

definition BuildFQName :: "string \<Rightarrow> string \<Rightarrow> string \<Rightarrow> string" where
  "BuildFQName namespace subsystem name =
     (if name = '''' then '''' else Join (filter (\<lambda>w. w \<noteq> '''') [namespace, subsystem, name]) ''_'')"

definition fq_name :: "collector \<Rightarrow> string" where
  "fq_name c = BuildFQName (col_Namespace c) (col_Subsystem c) (col_Name c)"

lemma BuildFQName_inject:
  "name \<noteq> '''' \<Longrightarrow> name' \<noteq> '''' \<Longrightarrow> BuildFQName ns ss name = BuildFQName ns ss name' \<longleftrightarrow> name = name'"
  by (simp add: BuildFQName_def)

lemma registry_names_distinct: "distinct (map fq_name (collectors (NewRegistry ns ss)))"
  by (simp add: collectors_def NewRegistry_def Let_def fq_name_def BuildFQName_inject)

lemma register_all_names:
  assumes "\<And>c st. (\<exists>st'. registerer c st = Inr st' \<and> names st' = insert (fq_name c) (names st)) \<or>
      (\<exists>e. registerer c st = Inl e) \<and> fq_name c \<in> names st"
  shows "distinct (map fq_name cs) \<Longrightarrow> fq_name ` set cs \<inter> names st = {} \<Longrightarrow>
    \<exists>st'. register_all registerer cs st = (None, st') \<and> names st' = fq_name ` set cs \<union> names st"
proof (induction cs arbitrary: st)
  case (Cons c cs)
  then have "fq_name c \<notin> names st" by simp
  with assms obtain st1 where st1: "registerer c st = Inr st1" "names st1 = insert (fq_name c) (names st)" by blast
  have "fq_name ` set cs \<inter> names st1 = {}" using Cons.prems st1(2) by auto
  with Cons.IH [of st1] Cons.prems(1) st1 show ?case by auto
qed simp

text \<open>
  With a registerer that takes a collector exactly when its name is free, the registry of the
  server registers as a whole where none of its names is in use, and not a second time.
\<close>

theorem registry_registers_once:
  assumes "\<And>c st. registerer c st = (if fq_name c \<in> names st then Inl AlreadyRegistered else Inr (add c st))"
    and "\<And>c st. names (add c st) = insert (fq_name c) (names st)"
    and "fq_name ` set (collectors (NewRegistry ns ss)) \<inter> names st = {}"
  shows "\<exists>st'. Register_metrics registerer (NewRegistry ns ss) st = (None, st') \<and>
    fst (Register_metrics registerer (NewRegistry ns ss) st') = Some AlreadyRegistered"
proof -
  obtain st' where st': "register_all registerer (collectors (NewRegistry ns ss)) st = (None, st')"
      "names st' = fq_name ` set (collectors (NewRegistry ns ss)) \<union> names st"
    using register_all_names [of registerer names, OF _ registry_names_distinct assms(3)] assms(1,2) by (metis (no_types))
  have "fq_name (reg_JobEnqueued (NewRegistry ns ss)) \<in> names st'" unfolding st'(2) by (simp add: collectors_def)
  then have "fst (register_all registerer (collectors (NewRegistry ns ss)) st') = Some AlreadyRegistered"
    by (simp add: collectors_def assms(1))
  with st'(1) show ?thesis by (auto simp: Register_metrics_def)
qed

end
