(* ===== verification/Server.thy ===== *)
theory Server
  imports Scheduler Reconciler Http_Api Etl Webhook Kafka Readiness Observability
begin

text \<open>
  The process of \<open>cmd/server/main.go\<close> around the components: the registry of task handlers, the
  start of the server from an environment, its shutdown, its probes and the exit of \<open>main\<close>. Outside, and arguments, are the
  constructors of the libraries (log level, PostgreSQL pool, Kafka producer and consumer group). The
  lemmas: a server that starts has its
  components in good order, its scheduler has nothing to fire, a negative queue size is not caught before it
  panics, a task nobody registered goes to the dead letters, what a shutdown leaves behind, and how the
  process and its Kafka consumer end.
\<close>

section \<open>Task handlers\<close>

definition webhook_TaskName :: string where
  "webhook_TaskName = ''webhook''"

definition etl_TaskName :: string where
  "etl_TaskName = ''sql.etl''"

record 'w task_deps =
  td_net :: go_net
  td_send :: "'w transport"
  td_resolver :: "'w Resolver"
  td_spec :: "string \<Rightarrow> go_error + PipelineSpec"
  td_sanitize :: "string list \<Rightarrow> string"
  td_exec :: "'w \<Rightarrow> string \<Rightarrow> go_error option"

definition webhook_executor_of :: "'w task_deps \<Rightarrow> WebhookConfig \<Rightarrow> 'w webhook_executor" where
  "webhook_executor_of d cfg = NewExecutorWithConfig (td_resolver d)
     \<lparr>wc_Client = None, wc_Resolver = None, wc_Timeout = hook_Timeout cfg, wc_MaxRedirects = hook_MaxRedirects cfg,
      wc_AllowPrivateNetworks = hook_AllowPrivateNetworks cfg\<rparr>"

definition defaultHandlers :: "'w task_deps \<Rightarrow> WebhookConfig \<Rightarrow> string \<rightharpoonup> 'w TaskHandler" where
  "defaultHandlers d cfg = Map.empty
     (webhook_TaskName \<mapsto> webhook_Handler (td_net d) (td_send d) (webhook_executor_of d cfg),
      etl_TaskName \<mapsto> etl_Handler (td_spec d) (td_sanitize d) (td_exec d) True)"

section \<open>Start\<close>

datatype startup_error = StartConfig config_error | StartLogger go_error | StartPostgresConfig go_error
  | StartPostgres go_error | StartKafka go_error | StartPanic

text \<open>What the libraries answer while the server starts; for the two steps of the pool \<open>None\<close> is success.\<close>

record start_deps =
  sd_ParseLevel :: "string \<Rightarrow> go_error + string"
  sd_ParseConfig :: "string \<Rightarrow> go_error option"
  sd_NewPool :: "PostgresConfig \<Rightarrow> go_error option"
  sd_NewSyncProducer :: "string list \<Rightarrow> sarama_config \<Rightarrow> go_error + unit"
  sd_NewConsumerGroup :: "string list \<Rightarrow> string \<Rightarrow> sarama_config \<Rightarrow> go_error + unit"

record 'w server =
  sv_cfg :: Config
  sv_log :: "string zero_logger"
  sv_metrics :: Registry
  sv_kafka :: "(unit, unit) KafkaClient"
  sv_lockMgr :: "string Manager"
  sv_breaker :: breaker
  sv_retry :: retry_config
  sv_handlers :: "string \<rightharpoonup> 'w TaskHandler"
  sv_lease :: duration
  sv_pool :: pool
  sv_reconciler :: Reconciler
  sv_scheduler :: Scheduler

definition run_start :: "start_deps \<Rightarrow> 'w task_deps \<Rightarrow> Environment \<Rightarrow> startup_error + 'w server" where
  "run_start sd td env =
     (case LoadFromEnvironment env of
        (cfg, Some err) \<Rightarrow> Inl (StartConfig err)
      | (cfg, None) \<Rightarrow>
          (case New_logger (sd_ParseLevel sd) (cfg_Logger cfg) of
             Inl err \<Rightarrow> Inl (StartLogger err)
           | Inr lg \<Rightarrow>
               (case sd_ParseConfig sd (pg_DSN (cfg_Postgres cfg)) of
                  Some err \<Rightarrow> Inl (StartPostgresConfig err)
                | None \<Rightarrow>
                    (case sd_NewPool sd (cfg_Postgres cfg) of
                       Some err \<Rightarrow> Inl (StartPostgres err)
                     | None \<Rightarrow>
                         (case fst (NewKafkaClient (sd_NewSyncProducer sd) (sd_NewConsumerGroup sd) (cfg_Kafka cfg)) of
                            Inl err \<Rightarrow> Inl (StartKafka err)
                          | Inr client \<Rightarrow>
                              (case NewPool (worker_QueueSize (cfg_Worker cfg)) (worker_Concurrency (cfg_Worker cfg)) of
                                 None \<Rightarrow> Inl StartPanic
                               | Some p \<Rightarrow>
                                   (let rec = New_reconciler \<lparr>rc_Interval = recon_Interval (cfg_Reconciler cfg),
                                          rc_IdleInterval = recon_IdleInterval (cfg_Reconciler cfg),
                                          rc_BatchSize = recon_BatchSize (cfg_Reconciler cfg),
                                          rc_RunningLease = recon_RunningLease (cfg_Reconciler cfg)\<rparr>;
                                        sched = New_scheduler (sched_TickInterval (cfg_Scheduler cfg))
                                    in Inr \<lparr>sv_cfg = cfg, sv_log = lg,
                                         sv_metrics = NewRegistry (metrics_Namespace (cfg_Metrics cfg)) (metrics_Subsystem (cfg_Metrics cfg)),
                                         sv_kafka = client, sv_lockMgr = NewManager (redis_Addresses (cfg_Redis cfg)) server_lock_config,
                                         sv_breaker = New_breaker server_breaker_config, sv_retry = server_retry_config,
                                         sv_handlers = defaultHandlers td (cfg_Webhook cfg),
                                         sv_lease = recon_RunningLease (cfg_Reconciler cfg), sv_pool = Start_pool p,
                                         sv_reconciler = (if recon_Enabled (cfg_Reconciler cfg) then Start_reconciler rec else rec),
                                         sv_scheduler = (if sched_Enabled (cfg_Scheduler cfg) then Start_scheduler sched else sched)\<rparr>)))))))"

lemma run_start_Inr:
  assumes "run_start sd td env = Inr srv"
  shows "snd (LoadFromEnvironment env) = None \<and> sv_cfg srv = fst (LoadFromEnvironment env) \<and>
    (\<exists>p. NewPool (worker_QueueSize (cfg_Worker (sv_cfg srv))) (worker_Concurrency (cfg_Worker (sv_cfg srv))) = Some p \<and> sv_pool srv = Start_pool p) \<and>
    sv_lockMgr srv = NewManager (redis_Addresses (cfg_Redis (sv_cfg srv))) server_lock_config \<and>
    sv_breaker srv = New_breaker server_breaker_config \<and> sv_handlers srv = defaultHandlers td (cfg_Webhook (sv_cfg srv)) \<and>
    rec_cfg (sv_reconciler srv) = rec_cfg (New_reconciler \<lparr>rc_Interval = recon_Interval (cfg_Reconciler (sv_cfg srv)),
      rc_IdleInterval = recon_IdleInterval (cfg_Reconciler (sv_cfg srv)), rc_BatchSize = recon_BatchSize (cfg_Reconciler (sv_cfg srv)),
      rc_RunningLease = recon_RunningLease (cfg_Reconciler (sv_cfg srv))\<rparr>) \<and>
    s_tickInterval (sv_scheduler srv) = s_tickInterval (New_scheduler (sched_TickInterval (cfg_Scheduler (sv_cfg srv)))) \<and>
    s_entries (sv_scheduler srv) = Map.empty"
  using assms unfolding run_start_def
  by (auto simp: Let_def Start_reconciler_def Start_scheduler_def New_scheduler_def split: prod.splits option.splits sum.splits)

lemma New_reconciler_ok:
  "0 < rc_Interval (rec_cfg (New_reconciler c)) \<and> rc_Interval (rec_cfg (New_reconciler c)) \<le> rc_IdleInterval (rec_cfg (New_reconciler c)) \<and>
   0 < rc_BatchSize (rec_cfg (New_reconciler c)) \<and> 0 < rc_RunningLease (rec_cfg (New_reconciler c))"
  by (simp add: New_reconciler_def Let_def)

lemma started_pool:
  assumes "NewPool qs conc = Some p" and "0 < conc"
  shows "reachable (Start_pool p) \<and> p_dispatcher (Start_pool p) = Receiving \<and> 0 < p_Concurrency (Start_pool p)"
proof -
  have "p_dispatcher p = NotStarted" "p_Concurrency p = nat conc" using assms(1) by (auto simp: NewPool_def split: if_splits)
  moreover from this have "pool_step p (Start_pool p)" by (intro pool_step.start)
  ultimately show ?thesis using reachable.new [OF assms(1)] reachable.step assms(2) by (auto simp: Start_pool_def)
qed

text \<open>
  C33: A server that starts has its components in good order, whatever the environment gave: the
  pool has worker slots, its dispatcher receives and its invariant holds; the breaker's invariant
  holds; a lock needs a majority of the Redis servers; the reconciler's intervals, batch and
  lease and the scheduler's tick are positive; exactly the webhook and the SQL pipeline tasks
  are registered, the former with a client of its own and a positive timeout; and the scheduler has no entry,
  as nothing registers one.
\<close>

theorem server_start_sound:
  assumes "run_start sd td env = Inr srv"
  shows "reachable (sv_pool srv) \<and> p_dispatcher (sv_pool srv) = Receiving \<and> 0 < p_Concurrency (sv_pool srv) \<and>
    breaker_inv (sv_breaker srv) \<and> length (mgr_clients (sv_lockMgr srv)) < 2 * nat (lk_Quorum (mgr_cfg (sv_lockMgr srv))) \<and>
    0 < rc_Interval (rec_cfg (sv_reconciler srv)) \<and> rc_Interval (rec_cfg (sv_reconciler srv)) \<le> rc_IdleInterval (rec_cfg (sv_reconciler srv)) \<and>
    0 < rc_BatchSize (rec_cfg (sv_reconciler srv)) \<and> 0 < rc_RunningLease (rec_cfg (sv_reconciler srv)) \<and>
    0 < s_tickInterval (sv_scheduler srv) \<and> s_entries (sv_scheduler srv) = Map.empty \<and>
    dom (sv_handlers srv) = {webhook_TaskName, etl_TaskName} \<and>
    (\<exists>t > 0. ex_client (webhook_executor_of td (cfg_Webhook (sv_cfg srv))) = OwnClient t)"
proof -
  note srv = run_start_Inr [OF assms]
  then have valid: "Validate (sv_cfg srv) = None" by (auto simp: LoadFromEnvironment_def Let_def)
  then have conc: "0 < worker_Concurrency (cfg_Worker (sv_cfg srv))" and hook: "0 < hook_Timeout (cfg_Webhook (sv_cfg srv))"
    by (auto simp: Validate_def split: if_splits)
  have pool: "reachable (sv_pool srv)" "p_dispatcher (sv_pool srv) = Receiving" "0 < p_Concurrency (sv_pool srv)"
    using srv started_pool [OF _ conc] by auto
  have "breaker_inv (sv_breaker srv)"
    using srv by (simp add: breaker_inv_def breaker_config_ok_def New_breaker_def server_breaker_config_def Let_def duration_defs)
  moreover have "length (mgr_clients (sv_lockMgr srv)) < 2 * nat (lk_Quorum (mgr_cfg (sv_lockMgr srv)))"
    using srv by (simp add: NewManager_def server_lock_config_def Let_def nat_add_distrib nat_div_distrib)
  moreover have "0 < s_tickInterval (sv_scheduler srv)" using srv by (simp add: New_scheduler_def)
  moreover have "dom (sv_handlers srv) = {webhook_TaskName, etl_TaskName}" using srv by (auto simp: defaultHandlers_def)
  moreover have "\<exists>t > 0. ex_client (webhook_executor_of td (cfg_Webhook (sv_cfg srv))) = OwnClient t"
    using hook by (simp add: webhook_executor_of_def NewExecutorWithConfig_def)
  ultimately show ?thesis using srv pool New_reconciler_ok by auto
qed

definition working_deps :: start_deps where
  "working_deps = \<lparr>sd_ParseLevel = Inr, sd_ParseConfig = (\<lambda>_. None), sd_NewPool = (\<lambda>_. None),
     sd_NewSyncProducer = (\<lambda>_ _. Inr ()), sd_NewConsumerGroup = (\<lambda>_ _ _. Inr ())\<rparr>"

definition sample_tasks :: "unit task_deps" where
  "sample_tasks = \<lparr>td_net = sample_net, td_send = sample_send 200, td_resolver = (\<lambda>w n h. Inr []), td_spec = (\<lambda>s. Inr sample_spec),
     td_sanitize = quote_parts, td_exec = (\<lambda>w s. None)\<rparr>"

theorem server_start_sound_witness:
  "\<exists>srv. run_start working_deps sample_tasks Map.empty = Inr srv \<and> 0 < p_Concurrency (sv_pool srv) \<and> s_entries (sv_scheduler srv) = Map.empty"
proof -
  have "load_all Map.empty Default = Default"
    by (simp add: load_all_def load_HTTP_def load_Kafka_def load_Redis_def load_Postgres_def load_Worker_def load_Scheduler_def
        load_Reconciler_def load_Metrics_def load_Logger_def load_Webhook_def env_str_def env_strs_def env_dur_def env_intv_def
        env_int32_def env_int16_def env_boolv_def env_parsed_def lookup_env_def)
  moreover have "Validate Default = None" by (simp add: Validate_def Default_def duration_defs)
  ultimately obtain srv where srv: "run_start working_deps sample_tasks Map.empty = Inr srv"
    by (simp add: run_start_def New_logger_def NewKafkaClient_def LoadFromEnvironment_def working_deps_def Default_def NewPool_def Let_def)
  from server_start_sound [OF srv] srv show ?thesis by blast
qed

section \<open>What the start does not catch\<close>

text \<open>A negative queue size passes the validation of the configuration and panics in \<open>NewPool\<close>.\<close>

theorem queue_size_unchecked:
  "snd (LoadFromEnvironment [''WORKER_QUEUE_SIZE'' \<mapsto> ''-1'']) = None \<and>
   run_start working_deps sample_tasks [''WORKER_QUEUE_SIZE'' \<mapsto> ''-1''] = Inl StartPanic"
proof -
  let ?env = "[''WORKER_QUEUE_SIZE'' \<mapsto> ''-1'']"
  have "Atoi ''-1'' = Some (-1)" by code_simp
  then have q: "worker_QueueSize (cfg_Worker (load_all ?env Default)) = -1"
    by (simp add: load_all_def load_Worker_def env_intv_def env_parsed_def lookup_env_def)
  have "env_intv ?env ''WORKER_CONCURRENCY'' 8 = 8" "env_dur ?env ''WEBHOOK_TIMEOUT'' (10 * Second) = 10 * Second"
    "env_intv ?env ''WEBHOOK_MAX_REDIRECTS'' 0 = 0"
    by (simp_all add: env_intv_def env_dur_def env_parsed_def lookup_env_def)
  then have "Validate (load_all ?env Default) = None"
    using load_required [of ?env] by (simp add: Validate_def load_checked duration_defs)
  then show ?thesis by (simp add: LoadFromEnvironment_def run_start_def New_logger_def NewKafkaClient_def working_deps_def NewPool_def q Let_def)
qed

text \<open>A job of a task that is not registered fails for good at its first attempt.\<close>

theorem unregistered_task_dead:
  assumes "jw_handlers jw = defaultHandlers td cfg" and "task_Name (job_Task job) \<notin> {webhook_TaskName, etl_TaskName}"
  shows "\<exists>err. execute jw w job = HandlerErr err \<and> \<not> worker_shouldRetry rc job err"
  using assms by (auto simp: execute_def defaultHandlers_def worker_shouldRetry_def ShouldRetry_def)

section \<open>Shutdown\<close>

text \<open>
  The end of \<open>run\<close>, from the done context on. \<open>before\<close> is what the goroutines of the pool do while
  the HTTP server shuts down and the reconciler stops, \<open>after\<close> what they do once the queue is closed;
  \<open>timeout\<close> says that the 30 seconds ran out first. \<open>None\<close> is the panic of closing a closed queue. The
  deferred calls then stop the scheduler and, again, the reconciler.
\<close>

definition run_shutdown :: "(pool \<Rightarrow> pool) \<Rightarrow> (pool \<Rightarrow> pool) \<Rightarrow> bool \<Rightarrow> 'w server \<Rightarrow> (stop_result \<times> 'w server) option" where
  "run_shutdown before after timeout srv =
     (let srv = srv\<lparr>sv_pool := before ((sv_pool srv)\<lparr>p_ctx_done := True\<rparr>), sv_reconciler := Stop_reconciler (sv_reconciler srv)\<rparr>
      in case Stop_close (sv_pool srv) of
           None \<Rightarrow> None
         | Some p \<Rightarrow>
             (let p = after p
              in Some (Stop_wait timeout p, srv\<lparr>sv_pool := p, sv_scheduler := Stop_scheduler (sv_scheduler srv),
                   sv_reconciler := Stop_reconciler (sv_reconciler srv)\<rparr>)))"

definition pool_moves :: "(pool \<Rightarrow> pool) \<Rightarrow> bool" where
  "pool_moves f \<longleftrightarrow> (\<forall>p. pool_step\<^sup>*\<^sup>* p (f p))"

lemma reachable_moves: "pool_step\<^sup>*\<^sup>* p p' \<Longrightarrow> reachable p \<Longrightarrow> reachable p'"
  by (induction rule: rtranclp_induct) (auto intro: reachable.step)

text \<open>
  A shutdown of a server whose queue nobody closed does not panic, leaves no loop of the
  reconciler or the scheduler running, and when \<open>Stop\<close> reports success no job is running. Every
  job the pool ever accepted is then finished or still lies in the closed queue.
\<close>

theorem shutdown_settles:
  assumes "reachable (sv_pool srv)"
    and "pool_moves before" and "pool_moves after" and "\<And>p. p_closed (before p) = p_closed p"
    and "\<not> p_closed (sv_pool srv)"
  shows "\<exists>res srv'. run_shutdown before after timeout srv = Some (res, srv') \<and> reachable (sv_pool srv') \<and>
    rec_loops (sv_reconciler srv') = 0 \<and> s_loops (sv_scheduler srv') = 0 \<and>
    (res = StopNil \<longrightarrow> p_running (sv_pool srv') = [] \<and>
       mset (p_accepted (sv_pool srv')) = mset (p_jobs (sv_pool srv')) + mset (p_finished (sv_pool srv')))"
proof -
  let ?p1 = "(sv_pool srv)\<lparr>p_ctx_done := True\<rparr>"
  let ?p2 = "before ?p1"
  let ?p3 = "?p2\<lparr>p_closed := True\<rparr>"
  have "reachable ?p1" using reachable.step [OF assms(1) pool_step.ctx] .
  then have "reachable ?p2" using reachable_moves assms(2) unfolding pool_moves_def by blast
  moreover have close: "Stop_close ?p2 = Some ?p3" using assms(4,5) by (simp add: Stop_close_def)
  ultimately have "reachable ?p3" using reachable.step pool_step.close by blast
  then have final: "reachable (after ?p3)" using reachable_moves assms(3) unfolding pool_moves_def by blast
  have "p_running (after ?p3) = [] \<and> mset (p_accepted (after ?p3)) = mset (p_jobs (after ?p3)) + mset (p_finished (after ?p3))"
    if "Stop_wait timeout (after ?p3) = StopNil"
  proof -
    have "p_running (after ?p3) = []" "in_hand (p_dispatcher (after ?p3)) = []"
      using that by (auto simp: Stop_wait_def wg_done_def split: if_splits)
    then show ?thesis using reachable_inv [OF final] by (simp add: pool_inv_def)
  qed
  then show ?thesis using close final
    by (simp add: run_shutdown_def Let_def Stop_reconciler_def Stop_scheduler_def)
qed

section \<open>The process\<close>

text \<open>
  \<open>main\<close>: what \<open>run\<close> returned decides the exit status. A failed start returns its error wrapped with \<open>%w\<close>; the
  errors of the validation wrap nothing. A panic ends a Go process with status 2, and a shutdown
  returns no error.
\<close>

definition context_Canceled :: go_error where
  "context_Canceled = errors_New ''context canceled''"

fun startup_canceled :: "startup_error \<Rightarrow> bool" where
  "startup_canceled (StartLogger err) \<longleftrightarrow> errors_Is (wrapf ''logger: '' err) context_Canceled"
| "startup_canceled (StartPostgresConfig err) \<longleftrightarrow> errors_Is (wrapf ''postgres config: '' err) context_Canceled"
| "startup_canceled (StartPostgres err) \<longleftrightarrow> errors_Is (wrapf ''postgres: '' err) context_Canceled"
| "startup_canceled (StartKafka err) \<longleftrightarrow> errors_Is (wrapf ''kafka: '' err) context_Canceled"
| "startup_canceled (StartConfig err) \<longleftrightarrow> False"
| "startup_canceled StartPanic \<longleftrightarrow> False"

definition main_exit :: "start_deps \<Rightarrow> 'w task_deps \<Rightarrow> Environment \<Rightarrow> int" where
  "main_exit sd td env =
     (case run_start sd td env of
        Inr srv \<Rightarrow> 0
      | Inl StartPanic \<Rightarrow> 2
      | Inl err \<Rightarrow> if startup_canceled err then 0 else 1)"

text \<open>The consumer goroutine: whether its end is logged as an error; \<open>None\<close> while it goes on.\<close>

definition consumer_goroutine :: "go_error \<Rightarrow> (go_error option \<times> bool) list \<Rightarrow> bool option" where
  "consumer_goroutine ctx_err ends = map_option (\<lambda>err. \<not> errors_Is err context_Canceled) (Consume ctx_err ends)"

text \<open>The probes beside the API. \<open>/health\<close> is an old name of \<open>/live\<close>; neither looks at anything.\<close>

datatype probe_route = RouteLive | RouteReady | RouteHealth

fun serve_probe :: "probe_route \<Rightarrow> instant \<Rightarrow> probe \<Rightarrow> readinessSnapshot \<Rightarrow> (int \<times> string \<times> (string \<times> string) list) \<times> readinessSnapshot" where
  "serve_probe RouteLive now p snapshot = ((200, ''ok'', []), snapshot)"
| "serve_probe RouteReady now p snapshot = readinessHandler now p snapshot"
| "serve_probe RouteHealth now p snapshot = ((200, ''ok'', []), snapshot)"

lemma wrapf_not_canceled: "wrapf (c # p) err \<noteq> context_Canceled"
  by (simp add: wrapf_def context_Canceled_def errors_New_def)

text \<open>
  A configuration that the validation refuses ends the process with status 1; a start that fails because the
  context was cancelled, by a signal during the start, ends it with status 0 like a regular shutdown.
\<close>

lemma main_exit_refused: "snd (LoadFromEnvironment env) = Some err \<Longrightarrow> main_exit sd td env = 1"
  by (cases "LoadFromEnvironment env") (simp add: main_exit_def run_start_def)

lemma main_exit_canceled:
  assumes "run_start sd td env = Inl (StartPostgres err)"
  shows "main_exit sd td env = (if errors_Is err context_Canceled then 0 else 1)"
  using assms by (simp add: main_exit_def errors_Is_wrapf wrapf_not_canceled)

text \<open>A session of the consumer that fails for another reason ends the consumption for good, whatever sessions could follow.\<close>

lemma consumer_stops:
  assumes "\<not> errors_Is err context_Canceled" and "\<forall>s \<in> set before. s = (None, False)"
  shows "consumer_goroutine ctx_err (before @ (Some err, b) # after) = Some True"
  using assms by (induction before) (auto simp: consumer_goroutine_def)

lemma consumer_ends_quietly:
  assumes "\<forall>s \<in> set before. s = (None, False)"
  shows "consumer_goroutine context_Canceled (before @ (None, True) # after) = Some False"
  using assms by (induction before) (auto simp: consumer_goroutine_def)

end
