(* ===== verification/Lease_Queue.thy ===== *)
theory Lease_Queue
  imports Store_Correct
begin

text \<open>
  What the store promises to the rest of the program, without tables, SQL and rows: a queue of
  tickets, one per job, with leases. A ticket has a state, the time it is due, and the token and
  end of its lease. The events of the queue say who may do what: a claim takes a waiting ticket that no other free one
  precedes, only the holder of the token renews, releases or settles a lease, and a lease that has
  ended is recovered. Two events go around the lease, as the code does: a cancellation, and an update
  without token. The lemmas show that the PostgreSQL store refines this queue, call by call and over whole
  histories, and what can happen to a lease in the queue, and hence in the store.
\<close>

section \<open>The abstract queue\<close>

record ticket =
  tk_state :: JobState
  tk_due :: "instant option"
  tk_token :: "string option"
  tk_expires :: "instant option"

type_synonym queue = "string \<rightharpoonup> ticket"

definition waiting :: "instant \<Rightarrow> ticket \<Rightarrow> bool" where
  "waiting now tk \<longleftrightarrow> tk_state tk = JobStatePending \<and> (case tk_due tk of None \<Rightarrow> True | Some t \<Rightarrow> t \<le> now)"

definition leased :: "string \<Rightarrow> ticket \<Rightarrow> bool" where
  "leased tok tk \<longleftrightarrow> tk_state tk = JobStateRunning \<and> tk_token tk = Some tok"

definition run_out :: "instant \<Rightarrow> ticket \<Rightarrow> bool" where
  "run_out now tk \<longleftrightarrow> tk_state tk = JobStateRunning \<and> (case tk_expires tk of None \<Rightarrow> False | Some t \<Rightarrow> t \<le> now)"

definition recovered :: "instant \<Rightarrow> bool \<Rightarrow> ticket \<Rightarrow> ticket" where
  "recovered now dead tk = tk\<lparr>tk_state := (if dead then JobStateDead else JobStatePending),
     tk_due := (if dead then tk_due tk else Some now), tk_token := None, tk_expires := None\<rparr>"

datatype queue_event =
    EvSkip
  | EvAdd string
  | EvClaim instant "string \<Rightarrow> bool" string string
  | EvRenew string string
  | EvRelease string string
  | EvRecover instant "string set"
  | EvSettle string string JobState
  | EvStart string string
  | EvForce string JobState
  | EvCancel string

inductive queue_step :: "queue \<Rightarrow> queue_event \<Rightarrow> queue \<Rightarrow> bool" where
  skip: "queue_step q EvSkip q"
| add: "q i = None \<Longrightarrow> queue_step q (EvAdd i) (q(i \<mapsto> tk))"
| claim: "q i = Some tk \<Longrightarrow> waiting now tk \<Longrightarrow> \<not> locked i \<Longrightarrow>
    (\<forall>j tk'. \<not> locked j \<longrightarrow> q j = Some tk' \<longrightarrow> waiting now tk' \<longrightarrow> nulls_last (tk_due tk) \<le> nulls_last (tk_due tk')) \<Longrightarrow>
    queue_step q (EvClaim now locked i tok) (q(i \<mapsto> tk\<lparr>tk_state := JobStateRunning, tk_token := Some tok, tk_expires := Some e\<rparr>))"
| renew: "q i = Some tk \<Longrightarrow> leased tok tk \<Longrightarrow> queue_step q (EvRenew i tok) (q(i \<mapsto> tk\<lparr>tk_expires := Some e\<rparr>))"
| release: "q i = Some tk \<Longrightarrow> leased tok tk \<Longrightarrow>
    queue_step q (EvRelease i tok) (q(i \<mapsto> tk\<lparr>tk_state := JobStatePending, tk_token := None, tk_expires := None\<rparr>))"
| recover: "\<forall>i \<in> ids. \<exists>tk. q i = Some tk \<and> run_out now tk \<Longrightarrow>
    queue_step q (EvRecover now ids) (\<lambda>i. if i \<in> ids then map_option (recovered now (dead i)) (q i) else q i)"
| settle: "q i = Some tk \<Longrightarrow> tk_token tk = Some tok \<Longrightarrow> CanTransition (tk_state tk) (tk_state tk') \<Longrightarrow>
    tk_token tk' = (if tk_state tk' \<in> {JobStateRunning, JobStateFailed} then Some tok else None) \<Longrightarrow>
    queue_step q (EvSettle i tok (tk_state tk')) (q(i \<mapsto> tk'))"
| start: "q i = Some tk \<Longrightarrow> tk_state tk = JobStatePending \<Longrightarrow> tk_token tk = None \<Longrightarrow> leased tok tk' \<Longrightarrow>
    queue_step q (EvStart i tok) (q(i \<mapsto> tk'))"
| force: "q i = Some tk \<Longrightarrow> CanTransition (tk_state tk) (tk_state tk') \<Longrightarrow> tk_token tk' = None \<Longrightarrow>
    queue_step q (EvForce i (tk_state tk')) (q(i \<mapsto> tk'))"
| cancel: "q i = Some tk \<Longrightarrow> CanTransition (tk_state tk) JobStateDead \<Longrightarrow>
    queue_step q (EvCancel i) (q(i \<mapsto> tk\<lparr>tk_state := JobStateDead\<rparr>))"

inductive queue_run :: "queue \<Rightarrow> queue_event list \<Rightarrow> queue \<Rightarrow> bool" where
  empty: "queue_run q [] q"
| event: "queue_step q e q' \<Longrightarrow> queue_run q' es q'' \<Longrightarrow> queue_run q (e # es) q''"

section \<open>What can happen to a lease\<close>

text \<open>The events that may end or change the lease of ticket \<open>i\<close> under token \<open>tok\<close>.\<close>

fun touches :: "string \<Rightarrow> string \<Rightarrow> ticket \<Rightarrow> queue_event \<Rightarrow> bool" where
  "touches i tok tk (EvRenew j t) \<longleftrightarrow> j = i \<and> t = tok"
| "touches i tok tk (EvRelease j t) \<longleftrightarrow> j = i \<and> t = tok"
| "touches i tok tk (EvSettle j t s) \<longleftrightarrow> j = i \<and> t = tok"
| "touches i tok tk (EvRecover now ids) \<longleftrightarrow> i \<in> ids \<and> run_out now tk"
| "touches i tok tk (EvForce j s) \<longleftrightarrow> j = i"
| "touches i tok tk (EvCancel j) \<longleftrightarrow> j = i"
| "touches i tok tk _ \<longleftrightarrow> False"

lemma lease_untouched:
  assumes "queue_step q e q'" and "q i = Some tk" and "leased tok tk" and "\<not> touches i tok tk e"
  shows "q' i = Some tk"
  using assms by (induction rule: queue_step.induct) (auto simp: leased_def waiting_def)

lemma final_untouched:
  assumes "queue_step q e q'" and "q i = Some tk" and "tk_state tk \<in> {JobStateCompleted, JobStateDead}"
  shows "q' i = Some tk"
  using assms by (induction rule: queue_step.induct) (auto simp: leased_def waiting_def run_out_def CanTransition_def)

section \<open>The store as a queue\<close>

definition abs_row :: "row \<Rightarrow> ticket" where
  "abs_row r = \<lparr>tk_state = row_state r, tk_due = row_scheduled_at r, tk_token = row_lease_token r,
     tk_expires = row_lease_expires_at r\<rparr>"

definition abs_queue :: "table \<Rightarrow> queue" where
  "abs_queue tbl = (\<lambda>i. map_option abs_row (lookup_row i tbl))"

text \<open>
  The event a call of the store is. A call that returns an error is no event, but for a claim:
  its statement may take a row that the scan then fails to read.
\<close>

fun event_of :: "pg \<Rightarrow> call \<times> store_op \<Rightarrow> table \<Rightarrow> queue_event" where
  "event_of pg (c, OpCreate job) tbl =
     (if isl (fst (CreateJob pg c job tbl)) then EvSkip else EvAdd (job_ID job))"
| "event_of pg (c, OpUpdate job) tbl =
     (if isl (fst (UpdateJob pg c job tbl)) then EvSkip
      else if job_LeaseToken job = '''' then EvForce (job_ID job) (job_State job)
      else if map_option row_lease_token (lookup_row (job_ID job) tbl) = Some None
           then EvStart (job_ID job) (job_LeaseToken job)
      else EvSettle (job_ID job) (job_LeaseToken job) (job_State job))"
| "event_of pg (c, OpCancel i) tbl = (if isl (fst (CancelJob pg c i tbl)) then EvSkip else EvCancel i)"
| "event_of pg (c, OpClaim d) tbl =
     (case (newLeaseToken c, c_fault c, select_claim c tbl) of
        (Inr tok, None, r # _) \<Rightarrow> EvClaim (c_db_now c) (c_locked c) (row_id r) tok
      | _ \<Rightarrow> EvSkip)"
| "event_of pg (c, OpRenew job d) tbl =
     (if isl (fst (RenewLease pg c job d tbl)) then EvSkip else EvRenew (job_ID job) (job_LeaseToken job))"
| "event_of pg (c, OpRelease job reason) tbl =
     (if isl (fst (ReleaseClaim pg c job reason tbl)) then EvSkip else EvRelease (job_ID job) (job_LeaseToken job))"
| "event_of pg (c, OpRequeue n) tbl =
     (if isl (fst (RequeueExpiredRunning c n tbl)) \<or> n \<le> 0 then EvSkip
      else EvRecover (c_db_now c) (row_id ` set (select_expired c n tbl)))"

fun events :: "pg \<Rightarrow> (call \<times> store_op) list \<Rightarrow> table \<Rightarrow> queue_event list" where
  "events pg [] tbl = []"
| "events pg (h # hs) tbl = event_of pg h tbl # events pg hs (store_step pg h tbl)"

lemma abs_row_sel [simp]:
  "tk_state (abs_row r) = row_state r" "tk_due (abs_row r) = row_scheduled_at r"
  "tk_token (abs_row r) = row_lease_token r" "tk_expires (abs_row r) = row_lease_expires_at r"
  by (simp_all add: abs_row_def)

lemma abs_queue_mem: "table_inv tbl \<Longrightarrow> r \<in> set tbl \<Longrightarrow> abs_queue tbl (row_id r) = Some (abs_row r)"
  by (simp add: abs_queue_def lookup_row_mem)

text \<open>A statement that writes the one row of an identifier writes the one ticket.\<close>

lemma abs_queue_update_at:
  assumes "\<And>r. row_id (f r) = row_id r" and "\<And>r. p r \<Longrightarrow> row_id r = k" and "lookup_row k tbl = Some r" and "p r"
  shows "abs_queue (map (\<lambda>r. if p r then f r else r) tbl) = (abs_queue tbl)(k \<mapsto> abs_row (f r))"
  by (rule ext) (simp add: abs_queue_def lookup_row_update_at [of f p k tbl r, OF assms])

section \<open>Refinement, operation by operation\<close>

lemma GetJob_row:
  assumes "GetJob pg c i tbl = Inr job"
  obtains r where "lookup_row i tbl = Some r" "row_state r = job_State job"
  using assms by (auto simp: GetJob_lookup split: option.splits dest: scanJob_Inr)

lemma lookup_row_snoc: "lookup_row i (tbl @ [r]) = (case lookup_row i tbl of None \<Rightarrow> if row_id r = i then Some r else None | Some q \<Rightarrow> Some q)"
  by (induction tbl) (auto simp: lookup_row_def)

lemma CreateJob_Inl: "fst (CreateJob pg c job tbl) = Inl e \<Longrightarrow> snd (CreateJob pg c job tbl) = tbl"
  by (auto simp: CreateJob_def Let_def split: option.splits sum.splits if_splits)

lemma CreateJob_row:
  assumes "fst (CreateJob pg c job tbl) = Inr u"
  obtains r where "insert_row r tbl = Inr (snd (CreateJob pg c job tbl))" "row_id r = job_ID job"
  using assms that
  by (cases "c_fault c"; cases "job_CreatedAt job = 0")
    (auto simp: CreateJob_def Let_def row_of_job_def split: sum.splits if_splits)

lemma create_refines:
  "queue_step (abs_queue tbl) (event_of pg (c, OpCreate job) tbl) (abs_queue (snd (CreateJob pg c job tbl)))"
proof (cases "fst (CreateJob pg c job tbl)")
  case (Inl e)
  then show ?thesis by (simp add: queue_step.skip CreateJob_Inl)
next
  case (Inr u)
  then obtain r where r: "insert_row r tbl = Inr (snd (CreateJob pg c job tbl))" "row_id r = job_ID job"
    by (rule CreateJob_row)
  have new: "lookup_row (job_ID job) tbl = None" and tbl: "snd (CreateJob pg c job tbl) = tbl @ [r]"
    using r by (auto simp: insert_row_Inr lookup_row_def find_None_iff)
  have "abs_queue (tbl @ [r]) = (abs_queue tbl)(job_ID job \<mapsto> abs_row r)"
    using new r(2) by (intro ext) (auto simp: abs_queue_def lookup_row_snoc split: option.split)
  then show ?thesis using Inr new by (simp add: tbl abs_queue_def queue_step.add)
qed

lemma UpdateJob_Inl: "c_between c = id \<Longrightarrow> fst (UpdateJob pg c job tbl) = Inl e \<Longrightarrow> snd (UpdateJob pg c job tbl) = tbl"
  by (auto simp: UpdateJob_def Let_def update_where_none split: sum.splits option.splits if_splits)

lemma UpdateJob_row:
  assumes "table_inv tbl" and "c_between c = id" and "fst (UpdateJob pg c job tbl) = Inr u"
  obtains r where "lookup_row (job_ID job) tbl = Some r" "CanTransition (row_state r) (job_State job)" "update_hit job r"
    "snd (UpdateJob pg c job tbl) = map (\<lambda>r. if update_hit job r then update_set pg c job r else r) tbl"
proof -
  obtain old where old: "GetJob pg c (job_ID job) tbl = Inr old"
    using assms(3) by (cases "GetJob pg c (job_ID job) tbl") (simp_all add: UpdateJob_def)
  obtain r where r: "lookup_row (job_ID job) tbl = Some r" "row_state r = job_State old" by (rule GetJob_row [OF old])
  have "CanTransition (row_state r) (job_State job)" and "filter (update_hit job) tbl \<noteq> []"
    and "snd (UpdateJob pg c job tbl) = map (\<lambda>r. if update_hit job r then update_set pg c job r else r) tbl"
    using assms(2,3) old r(2) by (auto simp: UpdateJob_def Let_def split: option.splits if_splits)
  then show ?thesis using that [OF r(1)] r(1) by (simp add: update_hit_Nil [OF assms(1)])
qed

lemma update_refines:
  assumes "table_inv tbl" and "c_between c = id"
  shows "queue_step (abs_queue tbl) (event_of pg (c, OpUpdate job) tbl) (abs_queue (snd (UpdateJob pg c job tbl)))"
proof (cases "fst (UpdateJob pg c job tbl)")
  case (Inl e)
  then show ?thesis by (simp add: queue_step.skip UpdateJob_Inl [OF assms(2)])
next
  case (Inr u)
  obtain r where r: "lookup_row (job_ID job) tbl = Some r" "CanTransition (row_state r) (job_State job)" "update_hit job r"
    and tbl: "snd (UpdateJob pg c job tbl) = map (\<lambda>r. if update_hit job r then update_set pg c job r else r) tbl"
    by (rule UpdateJob_row [OF assms Inr])
  let ?tk = "abs_row (update_set pg c job r)"
  have new: "abs_queue (snd (UpdateJob pg c job tbl)) = (abs_queue tbl)(job_ID job \<mapsto> ?tk)"
    unfolding tbl by (rule abs_queue_update_at [where p = "update_hit job", OF _ _ r(1,3)]) (simp_all add: update_hit_def)
  have q: "abs_queue tbl (job_ID job) = Some (abs_row r)" by (simp add: abs_queue_def r(1))
  have st: "tk_state ?tk = job_State job" by (simp add: update_set_def)
  have settle_token: "tk_token ?tk = (if job_State job \<in> {JobStateRunning, JobStateFailed} then Some (job_LeaseToken job) else None)"
    if "job_LeaseToken job \<noteq> ''''" "CanTransition (row_state r) (job_State job)"
    using that by (auto simp: update_set_def nullableString_def CanTransition_def split: if_splits)
  consider (force) "job_LeaseToken job = ''''" | (start) "job_LeaseToken job \<noteq> ''''" "row_lease_token r = None"
    | (settle) "job_LeaseToken job \<noteq> ''''" "row_lease_token r = Some (job_LeaseToken job)"
    using r(3) by (auto simp: update_hit_def)
  then show ?thesis
  proof cases
    case force
    have "queue_step (abs_queue tbl) (EvForce (job_ID job) (tk_state ?tk)) ((abs_queue tbl)(job_ID job \<mapsto> ?tk))"
      by (rule queue_step.force [where q = "abs_queue tbl" and tk = "abs_row r" and tk' = ?tk, OF q]) (use r(2) force in \<open>simp_all add: update_set_def nullableString_def\<close>)
    then show ?thesis using force Inr unfolding new st by simp
  next
    case start
    have "queue_step (abs_queue tbl) (EvStart (job_ID job) (job_LeaseToken job)) ((abs_queue tbl)(job_ID job \<mapsto> ?tk))"
      by (rule queue_step.start [where q = "abs_queue tbl" and tk = "abs_row r" and tk' = ?tk, OF q])
        (use r(3) start in \<open>auto simp: update_hit_def update_set_def nullableString_def leased_def\<close>)
    then show ?thesis using start Inr r(1) unfolding new by simp
  next
    case settle
    have "tk_token (abs_row r) = Some (job_LeaseToken job)" "CanTransition (tk_state (abs_row r)) (tk_state ?tk)"
      using settle r(2) st by simp_all
    from queue_step.settle [where tk' = ?tk and q = "abs_queue tbl", OF q this settle_token [OF settle(1) r(2), folded st]]
    have "queue_step (abs_queue tbl) (EvSettle (job_ID job) (job_LeaseToken job) (tk_state ?tk)) ((abs_queue tbl)(job_ID job \<mapsto> ?tk))" .
    then show ?thesis using settle Inr r(1) unfolding new st by simp
  qed
qed

lemma CancelJob_Inl: "c_between c = id \<Longrightarrow> fst (CancelJob pg c i tbl) = Inl e \<Longrightarrow> snd (CancelJob pg c i tbl) = tbl"
  by (auto simp: CancelJob_def Let_def split: sum.splits option.splits if_splits)

lemma cancel_refines:
  assumes "c_between c = id"
  shows "queue_step (abs_queue tbl) (event_of pg (c, OpCancel i) tbl) (abs_queue (snd (CancelJob pg c i tbl)))"
proof (cases "fst (CancelJob pg c i tbl)")
  case (Inl e)
  then show ?thesis by (simp add: queue_step.skip CancelJob_Inl [OF assms])
next
  case (Inr u)
  let ?f = "\<lambda>r. r\<lparr>row_state := JobStateDead, row_updated_at := stored pg (c_now c)\<rparr>"
  obtain old where old: "GetJob pg c i tbl = Inr old"
    using Inr by (cases "GetJob pg c i tbl") (simp_all add: CancelJob_def)
  obtain r where r: "lookup_row i tbl = Some r" "row_state r = job_State old" by (rule GetJob_row [OF old])
  have can: "CanTransition (row_state r) JobStateDead"
    and tbl: "snd (CancelJob pg c i tbl) = map (\<lambda>r. if row_id r = i then ?f r else r) tbl"
    using Inr assms old r(2) by (auto simp: CancelJob_def Let_def split: option.splits if_splits)
  have id: "row_id r = i" using lookup_row_Some [OF r(1)] by simp
  have "abs_queue (snd (CancelJob pg c i tbl)) = (abs_queue tbl)(i \<mapsto> abs_row (?f r))"
    unfolding tbl by (rule abs_queue_update_at [where p = "\<lambda>r. row_id r = i", OF _ _ r(1) id]) simp_all
  moreover have "abs_row (?f r) = (abs_row r)\<lparr>tk_state := JobStateDead\<rparr>" by (simp add: abs_row_def)
  ultimately show ?thesis
    using Inr can r(1) by (simp add: abs_queue_def queue_step.cancel)
qed

lemma claim_refines:
  assumes "table_inv tbl"
  shows "queue_step (abs_queue tbl) (event_of pg (c, OpClaim d) tbl) (abs_queue (snd (ClaimNextJob pg c d tbl)))"
proof (cases "\<exists>tok r rs. newLeaseToken c = Inr tok \<and> c_fault c = None \<and> select_claim c tbl = r # rs")
  case False
  then have "event_of pg (c, OpClaim d) tbl = EvSkip \<and> snd (ClaimNextJob pg c d tbl) = tbl"
    by (auto simp: ClaimNextJob_def split: sum.splits option.splits list.splits)
  then show ?thesis by (simp add: queue_step.skip)
next
  case True
  then obtain tok r rs where sel: "newLeaseToken c = Inr tok" "c_fault c = None" "select_claim c tbl = r # rs" by blast
  note r = select_claim_Cons [OF sel(3)]
  have look: "lookup_row (row_id r) tbl = Some r" using assms r(1) by (rule lookup_row_mem)
  let ?f = "claim_set pg c d tok"
  have new: "abs_queue (snd (ClaimNextJob pg c d tbl)) = (abs_queue tbl)(row_id r \<mapsto> abs_row (?f r))"
    unfolding ClaimNextJob_def sel sum.case option.case list.case snd_conv update_where_def
    by (rule abs_queue_update_at [where p = "\<lambda>q. row_id q = row_id r", OF _ _ look]) simp_all
  have claim: "abs_row (?f r) = (abs_row r)\<lparr>tk_state := JobStateRunning, tk_token := Some tok,
      tk_expires := Some (stored pg (c_now c + d))\<rparr>" by (simp add: abs_row_def claim_set_def)
  have ev: "event_of pg (c, OpClaim d) tbl = EvClaim (c_db_now c) (c_locked c) (row_id r) tok" by (simp add: sel)
  have first: "nulls_last (tk_due (abs_row r)) \<le> nulls_last (tk_due tk)"
    if tk: "\<not> c_locked c j" "abs_queue tbl j = Some tk" "waiting (c_db_now c) tk" for j tk
  proof -
    obtain q where q: "lookup_row j tbl = Some q" "tk = abs_row q" using tk(2) by (auto simp: abs_queue_def)
    have "claimable c q" using tk(1,3) lookup_row_Some [OF q(1)] by (simp add: q(2) claimable_def waiting_def)
    then show ?thesis using r(3) lookup_row_Some [OF q(1)] by (simp add: q(2))
  qed
  have at: "abs_queue tbl (row_id r) = Some (abs_row r)" by (simp add: abs_queue_def look)
  have free: "waiting (c_db_now c) (abs_row r)" "\<not> c_locked c (row_id r)"
    using r(2) by (simp_all add: waiting_def claimable_def)
  show ?thesis
    unfolding ev new claim by (rule queue_step.claim [where tk = "abs_row r" and q = "abs_queue tbl" and locked = "c_locked c", OF at free]) (use first in blast)
qed

lemma renew_refines:
  assumes "table_inv tbl"
  shows "queue_step (abs_queue tbl) (event_of pg (c, OpRenew job d) tbl) (abs_queue (snd (RenewLease pg c job d tbl)))"
proof (cases "fst (RenewLease pg c job d tbl)")
  case (Inl e)
  then have "snd (RenewLease pg c job d tbl) = tbl"
    by (auto simp: RenewLease_def update_where_none split: option.splits if_splits)
  then show ?thesis using Inl by (simp add: queue_step.skip)
next
  case (Inr u)
  let ?f = "\<lambda>r. r\<lparr>row_lease_expires_at := Some (stored pg (c_now c + d)), row_updated_at := c_db_now c\<rparr>"
  have hit: "filter (holds_lease job) tbl \<noteq> []"
    and tbl: "snd (RenewLease pg c job d tbl) = map (\<lambda>r. if holds_lease job r then ?f r else r) tbl"
    using Inr by (auto simp: RenewLease_def split: option.splits if_splits)
  then obtain r where r: "lookup_row (job_ID job) tbl = Some r" "holds_lease job r"
    by (auto simp: holds_lease_Nil [OF assms] split: option.splits)
  have "abs_queue (snd (RenewLease pg c job d tbl)) = (abs_queue tbl)(job_ID job \<mapsto> abs_row (?f r))"
    unfolding tbl by (rule abs_queue_update_at [where p = "holds_lease job", OF _ _ r]) (simp_all add: holds_lease_def)
  moreover have "abs_row (?f r) = (abs_row r)\<lparr>tk_expires := Some (stored pg (c_now c + d))\<rparr>" by (simp add: abs_row_def)
  ultimately show ?thesis
    using Inr r by (simp add: abs_queue_def leased_def holds_lease_def queue_step.renew)
qed

lemma release_refines:
  assumes "table_inv tbl"
  shows "queue_step (abs_queue tbl) (event_of pg (c, OpRelease job reason) tbl) (abs_queue (snd (ReleaseClaim pg c job reason tbl)))"
proof (cases "fst (ReleaseClaim pg c job reason tbl)")
  case (Inl e)
  then have "snd (ReleaseClaim pg c job reason tbl) = tbl"
    by (auto simp: ReleaseClaim_def update_where_none split: option.splits if_splits)
  then show ?thesis using Inl by (simp add: queue_step.skip)
next
  case (Inr u)
  let ?f = "\<lambda>r. r\<lparr>row_state := JobStatePending, row_last_error := reason, row_started_at := None,
    row_lease_expires_at := None, row_lease_token := None, row_updated_at := c_db_now c\<rparr>"
  have hit: "filter (holds_lease job) tbl \<noteq> []"
    and tbl: "snd (ReleaseClaim pg c job reason tbl) = map (\<lambda>r. if holds_lease job r then ?f r else r) tbl"
    using Inr by (auto simp: ReleaseClaim_def split: option.splits if_splits)
  then obtain r where r: "lookup_row (job_ID job) tbl = Some r" "holds_lease job r"
    by (auto simp: holds_lease_Nil [OF assms] split: option.splits)
  have "abs_queue (snd (ReleaseClaim pg c job reason tbl)) = (abs_queue tbl)(job_ID job \<mapsto> abs_row (?f r))"
    unfolding tbl by (rule abs_queue_update_at [where p = "holds_lease job", OF _ _ r]) (simp_all add: holds_lease_def)
  moreover have "abs_row (?f r) = (abs_row r)\<lparr>tk_state := JobStatePending, tk_token := None, tk_expires := None\<rparr>"
    by (simp add: abs_row_def)
  ultimately show ?thesis
    using Inr r by (simp add: abs_queue_def leased_def holds_lease_def queue_step.release)
qed

lemma requeue_refines:
  assumes "table_inv tbl"
  shows "queue_step (abs_queue tbl) (event_of pg (c, OpRequeue n) tbl) (abs_queue (snd (RequeueExpiredRunning c n tbl)))"
proof (cases "n > 0 \<and> c_fault c = None")
  case False
  then have "event_of pg (c, OpRequeue n) tbl = EvSkip \<and> snd (RequeueExpiredRunning c n tbl) = tbl"
    by (auto simp: RequeueExpiredRunning_def)
  then show ?thesis by (simp add: queue_step.skip)
next
  case True
  let ?ids = "row_id ` set (select_expired c n tbl)"
  let ?dead = "\<lambda>i. retries_exhausted (the (lookup_row i tbl))"
  have ev: "event_of pg (c, OpRequeue n) tbl = EvRecover (c_db_now c) ?ids"
    and tbl: "snd (RequeueExpiredRunning c n tbl) = map (\<lambda>r. if row_id r \<in> ?ids then requeue_set c r else r) tbl"
    using True by (simp_all add: RequeueExpiredRunning_def)
  have req: "abs_row (requeue_set c r) = recovered (c_db_now c) (retries_exhausted r) (abs_row r)" for r
    by (simp add: abs_row_def requeue_set_def recovered_def)
  have new: "abs_queue (snd (RequeueExpiredRunning c n tbl)) =
      (\<lambda>i. if i \<in> ?ids then map_option (recovered (c_db_now c) (?dead i)) (abs_queue tbl i) else abs_queue tbl i)"
  proof
    fix i
    show "abs_queue (snd (RequeueExpiredRunning c n tbl)) i =
        (if i \<in> ?ids then map_option (recovered (c_db_now c) (?dead i)) (abs_queue tbl i) else abs_queue tbl i)"
      unfolding tbl abs_queue_def
      by (cases "lookup_row i tbl")
        (simp_all add: lookup_row_update [where p = "\<lambda>r. row_id r \<in> ?ids"] lookup_row_Some req)
  qed
  have "\<exists>tk. abs_queue tbl i = Some tk \<and> run_out (c_db_now c) tk" if "i \<in> ?ids" for i
    using that select_expired_props(1) [OF assms, of c n]
    by (auto simp: abs_queue_mem [OF assms] run_out_def lease_expired_def subset_iff)
  then show ?thesis unfolding ev new by (intro queue_step.recover) blast
qed

theorem store_step_refines:
  assumes "table_inv tbl" and "calm h"
  shows "queue_step (abs_queue tbl) (event_of pg h tbl) (abs_queue (store_step pg h tbl))"
proof -
  obtain c op where h: "h = (c, op)" by (cases h)
  have "c_between c = id" using assms(2) by (simp add: h calm_def)
  then show ?thesis
    unfolding h
    by (cases op) (simp_all only: store_step.simps create_refines update_refines [OF assms(1)] cancel_refines
        claim_refines [OF assms(1)] renew_refines [OF assms(1)] release_refines [OF assms(1)] requeue_refines [OF assms(1)])
qed

lemma store_run_refines:
  assumes "table_inv tbl" and "\<forall>h \<in> set hs. calm h"
  shows "queue_run (abs_queue tbl) (events pg hs tbl) (abs_queue (fold (store_step pg) hs tbl))"
  using assms
proof (induction hs arbitrary: tbl)
  case Nil
  then show ?case by (simp add: queue_run.empty)
next
  case (Cons h hs)
  then have h: "calm h" and hs: "\<forall>h \<in> set hs. calm h" by simp_all
  from Cons.IH [OF table_inv_calm_step [OF Cons.prems(1) h] hs]
  show ?case by (simp add: queue_run.event [OF store_step_refines [OF Cons.prems(1) h]])
qed

text \<open>
  C3: Refinement: read through \<open>abs_queue\<close>, which keeps of a row only its state, due time and
  lease, every sequence of undisturbed calls of the PostgreSQL store is a run of the lease queue, each call
  being the event \<open>event_of\<close> names: a call that returns an error is no event (a claim apart, which
  may take a row and then fail to read it), and one that succeeds is the event of its name, with the
  guard of that event met.
\<close>

theorem store_refines_lease_queue:
  assumes "table_inv tbl" and "\<forall>h \<in> set hs. calm h"
  shows "queue_run (abs_queue tbl) (events pg hs tbl) (abs_queue (fold (store_step pg) hs tbl))"
  using assms by (rule store_run_refines)

theorem store_refines_lease_queue_witness:
  "let hs = [(quiet 9000 [7], OpClaim 5000), (quiet 15000 [], OpRequeue 10), (quiet 16000 [9], OpClaim 5000)];
       es = [EvClaim 9000 (\<lambda>_. False) ''j1'' ''07'', EvRecover 15000 {''j1''}, EvClaim 16000 (\<lambda>_. False) ''j1'' ''09'']
   in queue_run (abs_queue [sample_pending]) es (abs_queue (fold (store_step sample_pg) hs [sample_pending]))"
proof -
  let ?hs = "[(quiet 9000 [7], OpClaim 5000), (quiet 15000 [], OpRequeue 10), (quiet 16000 [9], OpClaim 5000)]"
  have "events sample_pg ?hs [sample_pending] =
      [EvClaim 9000 (\<lambda>_. False) ''j1'' ''07'', EvRecover 15000 {''j1''}, EvClaim 16000 (\<lambda>_. False) ''j1'' ''09'']"
    by (simp add: ClaimNextJob_def newLeaseToken_def select_claim_def claimable_def sample_pending_def sample_row_def
        claim_set_def RequeueExpiredRunning_def select_expired_def lease_expired_def requeue_set_def
        retries_exhausted_def sample_pg_def row_of_job_def zero_Job_def zero_Task_def hex_digit_def)
  moreover have "\<forall>h \<in> set ?hs. calm h" by (simp add: calm_def)
  ultimately show ?thesis
    using store_refines_lease_queue [OF sample_pending_inv, of ?hs sample_pg] by simp
qed

section \<open>Leases over whole histories\<close>

lemma lease_untouched_run:
  assumes "queue_run q es q'" and "q i = Some tk" and "leased tok tk" and "\<forall>e \<in> set es. \<not> touches i tok tk e"
  shows "q' i = Some tk"
  using assms
proof (induction rule: queue_run.induct)
  case (event q e q' es q'')
  have "q' i = Some tk" by (rule lease_untouched [OF event.hyps(1) event.prems(1,2)]) (use event.prems(3) in simp)
  then show ?case using event.IH event.prems(2,3) by simp
qed

text \<open>
  The same for a row of the store: while no call is its holder's own, a recovery of its ended lease, a
  cancellation or an update without token, a leased row keeps its state, due time and lease.
\<close>

lemma store_lease_kept:
  assumes "table_inv tbl" and "\<forall>h \<in> set hs. calm h" and "lookup_row i tbl = Some r"
    and "row_state r = JobStateRunning" and "row_lease_token r = Some tok"
    and "\<forall>e \<in> set (events pg hs tbl). \<not> touches i tok (abs_row r) e"
  shows "\<exists>r'. lookup_row i (fold (store_step pg) hs tbl) = Some r' \<and> abs_row r' = abs_row r"
proof -
  have run: "queue_run (abs_queue tbl) (events pg hs tbl) (abs_queue (fold (store_step pg) hs tbl))"
    using assms(1,2) by (rule store_run_refines)
  have "abs_queue (fold (store_step pg) hs tbl) i = Some (abs_row r)"
    by (rule lease_untouched_run [OF run _ _ assms(6)]) (simp_all add: abs_queue_def leased_def assms(3-5))
  then show ?thesis by (auto simp: abs_queue_def)
qed

end
