(* ===== verification/Spec2Isabelle.thy ===== *)
theory Spec2Isabelle
  imports Server Lease_Queue
begin

text \<open>
  Conduit, a distributed task queue in Go: verification library.

  \<^bold>\<open>The program.\<close> Clients enqueue jobs over HTTP (\<open>internal/api\<close>). The job service
  (\<open>internal/service\<close>) writes a job to the PostgreSQL store (\<open>internal/store\<close>, the source of truth) and
  hands it to Kafka (\<open>internal/queue\<close>). Jobs reach the worker pool (\<open>internal/worker\<close>) from the Kafka
  consumer or from the reconciler (\<open>internal/reconciler\<close>), which claims due jobs and recovers expired
  leases. The runner (\<open>jobWorker\<close> in \<open>cmd/server/main.go\<close>) executes a job under a circuit breaker
  (\<open>internal/circuitbreaker\<close>), a distributed lock on Redis (\<open>internal/lock\<close>) and a lease that it renews,
  and settles it by way of the retry engine (\<open>internal/retry\<close>). The tasks are webhooks
  (\<open>internal/webhook\<close>) and SQL pipelines (\<open>internal/etl\<close>). A cron scheduler (\<open>internal/scheduler\<close>),
  configuration (\<open>internal/config\<close>), logger, metrics and a readiness probe complete the process.

  \<^bold>\<open>Theories, from the bottom.\<close>
  \<^item> \<open>Conduit_Prelude\<close>: instants and durations as integers of nanoseconds, results as sums, facts on
    lists and folds. \<open>Go_Errors\<close>, \<open>Go_Strings\<close>, \<open>Encoding\<close>, \<open>Base64\<close>, \<open>Floats\<close>, \<open>Go_Duration\<close>, \<open>Calendar\<close>, \<open>Netip\<close>: what the
    program uses of Go's standard library. \<open>Models\<close>: \<open>pkg/models\<close>, the job and its states.
  \<^item> \<open>Store\<close>, \<open>Store_Facts\<close>, \<open>Store_Correct\<close>: the jobs table as a list of rows and every method of
    \<open>PostgresStore\<close> with its SQL as a function on it; each call carries the faults it meets and what other
    sessions do between its two statements. Shown: unique ids and keys under any interleaving, the
    state machine, fencing by lease tokens, exclusive claims, the order of claims, lease recovery, and
    when a stored job can be read back. \<open>Listing\<close>: \<open>ListJobs\<close> and its cursors, completeness of paging.
  \<^item> \<open>Lease_Queue\<close>: what the store promises without its tables, a queue of tickets with leases as a labelled
    step relation. Shown: sequences of undisturbed store calls refine it, call by call, and which events can
    touch a lease. A write of another session between the two statements of an update is outside of it;
    \<open>Store_Correct\<close> shows what it can do.
  \<^item> \<open>Service\<close>: \<open>Enqueue\<close>, \<open>Cancel\<close> and job ids; the locale \<open>key_store\<close> says what \<open>Enqueue\<close> relies on and is
    interpreted on the store. Shown: idempotency, the effect of an enqueue, the form of ids.
  \<^item> \<open>Pool\<close>: the pool as a step relation over its channel, dispatcher and goroutines; invariant,
    progress, draining. \<open>Kafka\<close>: publishing and the consumer loop interleaved with the pool; what the
    committed offset says. \<open>Reconciler\<close>: its loop, over the locales \<open>claim_store\<close> and \<open>submitter\<close>, which are
    interpreted on store and pool. Shown: what a pass hands over and when it leaves nothing due, and the jobs it
    never submits.
  \<^item> \<open>Breaker\<close>, \<open>Backoff\<close> (over \<open>Floats\<close>, a model of \<open>float64\<close> rounding), \<open>Redlock\<close> (managers against logs of the Redis
    servers): invariants, when a breaker trips and recovers, bounds and exact form of the delays,
    exclusion of the lock.
  \<^item> \<open>Runner\<close>: \<open>jobWorker.Run\<close> on top of these; the locale \<open>lease_store\<close> is interpreted on the store. Shown: the
    row a run leaves for every outcome, no write without the lease, survival of renewed leases,
    release of the lock and balance of the metrics on every path.
  \<^item> \<open>Cron\<close>, \<open>Scheduler\<close>: parsing and meaning of cron expressions, \<open>Next\<close> as the least matching minute, ticks.
  \<^item> \<open>Sql_Scan\<close>, \<open>Etl\<close>: the keyword scanner against a reference lexer, the statements that are built.
    \<open>Webhook\<close>: targets, redirects, classification of responses.
  \<^item> \<open>Config_Env\<close>: all structures, defaults, variables and checks of the configuration. \<open>Http_Api\<close>: handlers, error
    envelope and middleware, with the contract of the interface. \<open>Observability\<close>: logger and metrics
    registry. \<open>Readiness\<close>: the probe and its cache. \<open>Server\<close>: handler registry, start, shutdown,
    probes and exit status.
  \<^item> This theory: the life of a job across service, store, reconciler and runner.

  State and operations keep the names of the source where HOL allows it; a suffix or prefix marks
  the component where Go uses one name in several packages (\<open>New_breaker\<close>, \<open>Start_pool\<close>). Record fields carry
  a short prefix of their structure.

  \<^bold>\<open>Parameters.\<close> Arguments stand for code outside the repository: the driver's answer to a NULL in a string
  column and its rounding of times (\<open>pg\<close>), the replies of Redis, the JSON codec, URL and address parsers,
  name resolver and transport (\<open>go_net\<close>), \<open>pgx.Identifier.Sanitize\<close>, the collation of ids, random bytes
  and clocks. Hypotheses on them state documented behaviour, and a witness instantiates each.

  \<^bold>\<open>Bounds and termination.\<close> Loops are structural or have a measure; \<open>next_loop\<close> ends at the search limit of the
  source, \<open>client_Do\<close> at the redirect limit. Fuel occurs once, in \<open>list_all_pages\<close>, the model of a client that
  follows cursors; the theorem on paging gives a number of pages that is enough. Numbers are
  unbounded integers where the source cannot overflow in practice (times, counters), and kept in range where
  it checks the range (\<open>Atoi\<close>, \<open>ParseInt\<close>, \<open>ParseDuration\<close>); bytes and addresses are words. Texts are ASCII where
  letters, spaces or digits are examined.

  \<^bold>\<open>Not modelled.\<close> The delivery of signals, the HTTP listener, routing and JSON binding of gin, the closing of library clients,
  \<open>ConfigureGlobal\<close>, and constructors that only store their arguments: no logic of the repository. Log lines, except
  the levels of the HTTP interface; of the metrics the calls are modelled, not the observed seconds or the
  exposition. SQL is modelled by its meaning on the table; the
  planner, isolation beyond row locks and statements, and connection handling are PostgreSQL's. Deployment
  files, examples and load tests hold no program logic.
\<close>

section \<open>The life of a job\<close>

text \<open>
  C8: From the client to the settled row, across service, store, reconciler and runner: a job that
  \<open>Enqueue\<close> stored anew, that a pass of the reconciler then submitted, and whose worker reaches the handler
  with only lease renewals going on beside it, is executed as its first attempt, with the task and the
  idempotency key the client gave. Its row ends as the outcome of the handler demands: COMPLETED, PENDING
  with a later due time, DEAD, or, after a panic, still running under the lease; every other row is as the
  pass and the renewals left it.
\<close>

theorem job_lifecycle:
  assumes "scan_null pg = Inl e" and "table_inv tbl"
    and "Enqueue (GetJobByIdempotencyKey pg) (CreateJob pg) q job tbl = (Inr i, pub, tbl1)"
    and "q_after_lookup q = id" and "q_after_create q = id" and "tbl1 \<noteq> tbl" and "job_State job = ''''" and "job_Attempt job = 0"
    and "reconcile_pg pg cfg c rounds tbl1 p = (hadWork, jobs, tbl2, p2)" and "taken_job \<in> set jobs" and "job_ID taken_job = i"
    and "job_LeaseToken taken_job \<noteq> ''''"
    and "jw_store jw = pg_store pg" and "reaches_handler jw env taken_job rs" and "rs_store rs = tbl2"
    and "\<forall>ev \<in> set (re_during env). \<exists>c. ev = RenewTick c" and "undisturbed_writes env"
    and "renewing jw taken_job (map_option fst (startLeaseRenewal jw taken_job)) (re_during env) tbl2 = (active, tbl3)"
  shows "job_Attempt taken_job = 1 \<and> job_Task taken_job = job_Task job \<and> job_IdempotencyKey taken_job = job_IdempotencyKey job \<and>
    (\<exists>r r'. lookup_row i tbl3 = Some r \<and> holds_lease taken_job r \<and> settled pg jw env taken_job r r' \<and>
      (\<forall>k. lookup_row k (rs_store (snd (Run jw env taken_job rs))) = (if k = i then Some r' else lookup_row k tbl3)))"
proof -
  obtain row where row: "tbl1 = tbl @ [row]" "row_id row = i" "row_state row = JobStatePending" "row_attempt row = 0"
    "row_task row = job_Task job" "row_idempotency_key row = nullableString (job_IdempotencyKey job)"
    by (rule Enqueue_row [OF assms(3-6)]) (simp add: assms(7,8))
  have inv1: "table_inv tbl1" by (rule pg_keys.Enqueue_keeps(1) [OF assms(2) _ _ assms(3)]) (simp_all add: assms(4,5))
  note sub = submitted_job [OF inv1 assms(9) _ row(3) assms(10), unfolded row(2), OF _ assms(11)]
  have mem: "row \<in> set tbl1" by (simp add: row(1))
  note from_row = claimed_from_job [OF sub(1) [OF mem]] claimed_from_keyed [OF sub(1) [OF mem] assms(1)]
  obtain r2 where r2: "lookup_row i tbl2 = Some r2" "holds_lease taken_job r2" "same_identity row r2" "table_inv tbl2"
    using sub(2) [OF mem] by blast
  obtain r where r: "lookup_row i tbl3 = Some r" "holds_lease taken_job r" "same_identity r2 r" "table_inv tbl3"
    using renewing_ticks [OF assms(13,16) r2(4), of taken_job r2 "map_option fst (startLeaseRenewal jw taken_job)"] r2(1,2) assms(11,18)
    by auto
  have own: "owned taken_job r" "row_state r = JobStateRunning"
    using r(2,3) r2(3) from_row(6) assms(12) by (simp_all add: owned_def holds_lease_def same_identity_def)
  have "renewing jw taken_job (map_option fst (startLeaseRenewal jw taken_job)) (re_during env) (rs_store rs) = (active, tbl3)"
    using assms(15,18) by simp
  from Run_settles [OF assms(13,14) this r(4) _ own assms(17)] r(1)
  obtain r' where r': "settled pg jw env taken_job r r'"
    "\<forall>k. lookup_row k (rs_store (snd (Run jw env taken_job rs))) = (if k = i then Some r' else lookup_row k tbl3)"
    using assms(11) by auto
  have "job_IdempotencyKey taken_job = job_IdempotencyKey job"
    using from_row(6) row(6) by (simp add: nullableString_def split: if_splits)
  then show ?thesis using from_row(1,2) row(4,5) r(1,2) r' by auto
qed

definition life_job :: Job where
  "life_job = keyed_job\<lparr>job_Task := zero_Task\<lparr>task_Name := ''webhook''\<rparr>\<rparr>"

theorem job_lifecycle_witness:
  "\<exists>tbl1 job hadWork tbl2 p2 r.
     snd (snd (Enqueue (GetJobByIdempotencyKey sample_pg) (CreateJob sample_pg) (quiet_env 5000 []) life_job [])) = tbl1 \<and>
     reconcile_pg sample_pg sample_recon_config (quiet 9000 []) sample_rounds tbl1 busy_pool = (hadWork, [job], tbl2, p2) \<and>
     lookup_row ''j1'' (rs_store (snd (Run (sample_worker HandlerOk) sample_run_env job (sample_run_state tbl2)))) = Some r \<and>
     row_state r = JobStateCompleted \<and> row_attempt r = 1"
proof -
  let ?row = "row_of_job sample_pg (life_job\<lparr>job_State := JobStatePending, job_ScheduledAt := Some 5000, job_CreatedAt := 5000, job_UpdatedAt := 5000\<rparr>)"
  obtain pub where enq: "Enqueue (GetJobByIdempotencyKey sample_pg) (CreateJob sample_pg) (quiet_env 5000 []) life_job [] = (Inr ''j1'', pub, [?row])"
    by (simp add: enqueue_eval life_job_def)
  obtain had job tbl2 p2 where pass: "reconcile_pg sample_pg sample_recon_config (quiet 9000 []) sample_rounds [?row] busy_pool = (had, [job], tbl2, p2)"
    and job: "job_ID job = ''j1''" "job_LeaseToken job \<noteq> ''''" "job_State job = JobStateRunning" "job_ScheduledAt job = Some 5000"
      "task_Name (job_Task job) = ''webhook''"
    by (simp add: recon_eval row_of_job_def life_job_def keyed_job_def zero_Job_def sample_pg_def nullableString_def)
  have null: "scan_null sample_pg = Inl ''cannot scan NULL into *string''" by (simp add: sample_pg_def)
  have reach: "reaches_handler (sample_worker HandlerOk) sample_run_env job (sample_run_state tbl2)"
    and during: "re_during sample_run_env = []" and ok: "execute (sample_worker HandlerOk) () job = HandlerOk"
    using job by (simp_all add: reaches_handler_def sample_run_env_def sample_worker_def sample_run_state_def sample_lock(5)
        execute_def Allow_def New_breaker_def server_breaker_config_def Let_def)
  have ev: "renewing (sample_worker HandlerOk) job (map_option fst (startLeaseRenewal (sample_worker HandlerOk) job)) (re_during sample_run_env) tbl2 =
      (map_option fst (startLeaseRenewal (sample_worker HandlerOk) job), tbl2)" by (simp add: during)
  have life: "job_State life_job = ''''" "job_Attempt life_job = 0" by (simp_all add: life_job_def keyed_job_def zero_Job_def)
  have mem: "job \<in> set [job]" and ticks: "\<forall>ev \<in> set (re_during sample_run_env). \<exists>c. ev = RenewTick c" by (simp_all add: during)
  from job_lifecycle [OF null table_inv_Nil enq quiet_env_simps(2,3) _ life pass mem job(1,2) sample_run(1) reach sample_run(6) ticks sample_run(9) ev]
  obtain r r' where "job_Attempt job = 1" "settled sample_pg (sample_worker HandlerOk) sample_run_env job r r'"
    "lookup_row ''j1'' (rs_store (snd (Run (sample_worker HandlerOk) sample_run_env job (sample_run_state tbl2)))) = Some r'" by auto
  then show ?thesis using enq pass ok by (auto simp: settled_def)
qed

end
